theory Spec2Isabelle
  imports Main "HOL-Library.Sublist"
begin

section \<open>The notifications module of the qToggleServer frontend\<close>

text \<open>
  A shallow embedding of \<^verbatim>\<open>qtoggleserver/frontend/js/api/notifications.js\<close>.
  The module-level variables form one record, passed through every function and returned
  updated. Objects that the module shares by reference (the \<^verbatim>\<open>Event\<close> instances) live in
  an explicit store, everything the module does to the outside world (calling a handler, a
  listener, scheduling a timer, issuing the listen request) is appended to an effects log.
  Calls to the logger are left out.
\<close>

subsection \<open>JavaScript values\<close>

text \<open>
  Parameter values of events. Primitives are compared by value, objects (and functions) by
  reference; \<^verbatim>\<open>NaN\<close> differs from itself under \<^verbatim>\<open>!==\<close>. \<open>VBuiltin name\<close> is the member
  of \<^verbatim>\<open>Object.prototype\<close> of that name (a function, for \<^verbatim>\<open>__proto__\<close> the prototype
  itself), \<open>VObj\<close> any other object.
\<close>

datatype jsval =
    VUndefined
  | VNull
  | VBool bool
  | VNum int
  | VNaN
  | VStr string
  | VObj nat
  | VBuiltin string

type_synonym js_object = "(string \<times> jsval) list"

text \<open>The operator \<^verbatim>\<open>a !== b\<close>.\<close>

definition strict_neq :: "jsval \<Rightarrow> jsval \<Rightarrow> bool" where
  "strict_neq a b = (a \<noteq> b \<or> a = VNaN)"

text \<open>The names of the members of \<^verbatim>\<open>Object.prototype\<close>.\<close>

definition Object_prototype :: "string list" where
  "Object_prototype =
     [''constructor'', ''__defineGetter__'', ''__defineSetter__'', ''hasOwnProperty'',
      ''__lookupGetter__'', ''__lookupSetter__'', ''isPrototypeOf'',
      ''propertyIsEnumerable'', ''toString'', ''valueOf'', ''__proto__'',
      ''toLocaleString'']"

text \<open>
  Property access \<^verbatim>\<open>obj[key]\<close> on a plain object, given by its own entries: an own key
  reads as its value, a key that is not its own reads as the member that the object
  inherits from \<^verbatim>\<open>Object.prototype\<close>, and as \<^verbatim>\<open>undefined\<close> when there is none.
\<close>

definition get_prop :: "js_object \<Rightarrow> string \<Rightarrow> jsval" where
  "get_prop obj key =
     (case map_of obj key of
        Some v \<Rightarrow> v
      | None \<Rightarrow> if key \<in> set Object_prototype then VBuiltin key else VUndefined)"

text \<open>Truthiness of a string-or-null value: \<^verbatim>\<open>null\<close> and the empty string are falsy.\<close>

definition truthy_str :: "string option \<Rightarrow> bool" where
  "truthy_str s = (s \<noteq> None \<and> s \<noteq> Some [])"

datatype js_error =
    Error string
  | TypeError
  | AssertionError string

subsection \<open>Data model\<close>

text \<open>
  \<^verbatim>\<open>class Event\<close>. The constructor copies the params object: \<^verbatim>\<open>ObjectUtils.copy\<close> of the
  qui library gives a new plain object with the same own entries.
\<close>

record event =
  type :: string
  params :: js_object
  expected :: bool
  fake :: bool

definition copy :: "js_object \<Rightarrow> js_object" where
  "copy obj = obj"

definition Event :: "string \<Rightarrow> js_object \<Rightarrow> bool \<Rightarrow> bool \<Rightarrow> event" where
  "Event ty ps ex fk = \<lparr>type = ty, params = copy ps, expected = ex, fake = fk\<rparr>"

definition clone :: "event \<Rightarrow> event" where
  "clone e = Event (type e) (params e) (expected e) (fake e)"

text \<open>
  An entry of \<^verbatim>\<open>expectedEventSpecs\<close>. Its type and params may be \<^verbatim>\<open>null\<close>; the handlers
  are the closures pushed by \<^verbatim>\<open>waitExpectedEvent\<close>, one per promise, named by the number of
  their promise.
\<close>

record eventSpec =
  spec_type :: "string option"
  spec_params :: "js_object option"
  added :: int
  timeout :: int
  handlers :: "nat list"

text \<open>A record of a listen response: \<^verbatim>\<open>{type, params}\<close>, params possibly absent.\<close>

record eventData =
  data_type :: string
  data_params :: "js_object option"

text \<open>
  An entry of \<^verbatim>\<open>eventListeners\<close>: \<^verbatim>\<open>{callback, thisArg, args: arguments}\<close>, where
  \<^verbatim>\<open>arguments\<close> is the arguments object of the \<^verbatim>\<open>addEventListener\<close> call, so it starts
  with the callback itself.
\<close>

record listener =
  callback :: nat
  thisArg :: jsval
  args :: "jsval list"

text \<open>
  An argument handed to a listener: a reference to an \<^verbatim>\<open>Event\<close> in the store, or an
  arguments object. \<^verbatim>\<open>[event.clone()].concat(listener.args || [])\<close> appends the arguments
  object as one element, since \<^verbatim>\<open>concat\<close> spreads arrays only.
\<close>

datatype arg = ArgEvent nat | ArgArguments "jsval list"

datatype effect =
    HandlerCall nat "nat option" "js_error option"
    \<comment> \<open>\<^verbatim>\<open>h(event, error)\<close>: the handler, the event reference or null, the error or null\<close>
  | ListenerCall nat jsval "arg list"
    \<comment> \<open>\<^verbatim>\<open>callback.apply(thisArg, arguments)\<close>\<close>
  | SyncCall nat "int option"
    \<comment> \<open>a sync callback deferred with \<^verbatim>\<open>PromiseUtils.asap()\<close>: without arguments, or with
        the recorded error and the given reconnectSeconds\<close>
  | AsapWait
    \<comment> \<open>\<^verbatim>\<open>asap(wait)\<close>\<close>
  | SetTimeoutWait int
    \<comment> \<open>\<^verbatim>\<open>setTimeout(wait, ms)\<close>\<close>
  | ApiCall string int int
    \<comment> \<open>\<^verbatim>\<open>GET /listen\<close> with session id, timeout query parameter, request timeout\<close>
  | SetIntervalCleanup int
    \<comment> \<open>\<^verbatim>\<open>setInterval(cleanupExpectedEvents, ms)\<close>\<close>

record state =
  eventListeners :: "listener list"
  expectedEventSpecs :: "(nat \<times> eventSpec) list"
  expectedEventLastHandle :: nat
  sessionId :: "string option"
  listeningTime :: "int option"
  listenErrorCount :: nat
  ignoreListenErrors :: bool
  syncListenError :: "js_error option"
  syncListenCallbacks :: "nat list"
  store :: "event list"
  promises :: nat
  effects :: "effect list"

definition DEFAULT_EXPECT_TIMEOUT :: int where
  "DEFAULT_EXPECT_TIMEOUT = 60000"

definition FAST_RECONNECT_LISTEN_ERRORS :: nat where
  "FAST_RECONNECT_LISTEN_ERRORS = 2"

definition LISTEN_KEEPALIVE :: int where
  "LISTEN_KEEPALIVE = 60"

subsection \<open>Objects keyed by handle\<close>

text \<open>
  \<^verbatim>\<open>expectedEventSpecs\<close> is an object whose keys are the handles. Integer keys of a
  JavaScript object are enumerated in ascending order, so the object is an association list
  kept in ascending key order: assignment replaces the value of an existing key or inserts
  the new key at its place, \<^verbatim>\<open>delete\<close> removes the key.
\<close>

fun obj_set :: "(nat \<times> 'a) list \<Rightarrow> nat \<Rightarrow> 'a \<Rightarrow> (nat \<times> 'a) list" where
  "obj_set [] k v = [(k, v)]"
| "obj_set ((k', v') # r) k v =
     (if k = k' then (k, v) # r
      else if k < k' then (k, v) # (k', v') # r
      else (k', v') # obj_set r k v)"

definition obj_delete :: "(nat \<times> 'a) list \<Rightarrow> nat \<Rightarrow> (nat \<times> 'a) list" where
  "obj_delete obj k = filter (\<lambda>(k', v). k' \<noteq> k) obj"

text \<open>
  \<^verbatim>\<open>ObjectUtils.findKey(obj, func)\<close> of the qui library: the first key, in enumeration
  order, whose value satisfies \<^verbatim>\<open>func\<close>; an exception of \<^verbatim>\<open>func\<close> ends the search.
\<close>

fun findKey :: "(nat \<times> 'a) list \<Rightarrow> ('a \<Rightarrow> js_error + bool) \<Rightarrow> js_error + nat option" where
  "findKey [] func = Inr None"
| "findKey ((k, v) # r) func =
     (case func v of
        Inl e \<Rightarrow> Inl e
      | Inr True \<Rightarrow> Inr (Some k)
      | Inr False \<Rightarrow> findKey r func)"

subsection \<open>The expectation registry\<close>

definition expectEvent ::
  "int \<Rightarrow> string option \<Rightarrow> js_object option \<Rightarrow> int option \<Rightarrow> state \<Rightarrow> nat \<times> state" where
  "expectEvent now ty ps tmo st =
     (let tmo' = (case tmo of None \<Rightarrow> DEFAULT_EXPECT_TIMEOUT | Some t \<Rightarrow> t);
          handle = expectedEventLastHandle st + 1
      in (handle,
          st\<lparr>expectedEventLastHandle := handle,
             expectedEventSpecs := obj_set (expectedEventSpecs st) handle
               \<lparr>spec_type = ty, spec_params = ps, added = now, timeout = tmo', handlers = []\<rparr>\<rparr>))"

definition unexpectEvent :: "nat \<Rightarrow> state \<Rightarrow> state" where
  "unexpectEvent handle st =
     (let st1 = (case map_of (expectedEventSpecs st) handle of
                   None \<Rightarrow> st
                 | Some eventSpec \<Rightarrow>
                     st\<lparr>effects := effects st @
                          map (\<lambda>h. HandlerCall h None (Some (Error ''Event no longer expected'')))
                              (handlers eventSpec)\<rparr>)
      in st1\<lparr>expectedEventSpecs := obj_delete (expectedEventSpecs st1) handle\<rparr>)"

text \<open>
  The function given to \<^verbatim>\<open>findKey\<close> in \<^verbatim>\<open>lookupExpectedEventHandle\<close>. The candidate params
  are \<^verbatim>\<open>null\<close> when \<^verbatim>\<open>waitExpectedEvent\<close> is called without params; then
  \<^verbatim>\<open>params[key]\<close> raises a TypeError as soon as the entry's params have a key.
\<close>

definition specMatches :: "string \<Rightarrow> js_object option \<Rightarrow> eventSpec \<Rightarrow> js_error + bool" where
  "specMatches ty ps eventSpec =
     (if truthy_str (spec_type eventSpec) \<and> spec_type eventSpec \<noteq> Some ty then Inr False
      else case spec_params eventSpec of
          None \<Rightarrow> Inr True
        | Some sp \<Rightarrow>
            (case ps of
               None \<Rightarrow> if sp = [] then Inr True else Inl TypeError
             | Some p \<Rightarrow>
                 (let mismatched = filter (\<lambda>(key, v). strict_neq (get_prop p key) v) sp
                  in if length mismatched \<noteq> 0 then Inr False else Inr True)))"

definition lookupExpectedEventHandle ::
  "state \<Rightarrow> string \<Rightarrow> js_object option \<Rightarrow> js_error + nat option" where
  "lookupExpectedEventHandle st ty ps = findKey (expectedEventSpecs st) (specMatches ty ps)"

text \<open>
  The result of \<^verbatim>\<open>waitExpectedEvent\<close>: a promise already rejected, or a new pending
  promise whose settling closure has been pushed to an entry's handlers.
\<close>

datatype promise = Rejected js_error | Pending nat

text \<open>
  \<^verbatim>\<open>Inl\<close> is an exception thrown to the caller. The body of \<^verbatim>\<open>new Promise\<close> runs at
  once; the pushed handler settles the promise later (after two \<^verbatim>\<open>asap\<close> turns) and never
  throws.
\<close>

definition waitExpectedEvent ::
  "string \<Rightarrow> js_object option \<Rightarrow> state \<Rightarrow> js_error + (promise \<times> state)" where
  "waitExpectedEvent ty ps st =
     (case lookupExpectedEventHandle st ty ps of
        Inl e \<Rightarrow> Inl e
      | Inr None \<Rightarrow> Inr (Rejected (Error ''No such expected event''), st)
      | Inr (Some handle) \<Rightarrow>
          (case map_of (expectedEventSpecs st) handle of
             None \<Rightarrow> Inr (Rejected TypeError, st)
           | Some eventSpec \<Rightarrow>
               Inr (Pending (promises st),
                    st\<lparr>promises := promises st + 1,
                       expectedEventSpecs := obj_set (expectedEventSpecs st) handle
                         (eventSpec\<lparr>handlers := handlers eventSpec @ [promises st]\<rparr>)\<rparr>)))"

text \<open>The event is passed by reference: \<open>a\<close> is its address in the store.\<close>

definition tryMatchExpectedEvent :: "nat \<Rightarrow> state \<Rightarrow> js_error + (nat option \<times> state)" where
  "tryMatchExpectedEvent a st =
     (case lookupExpectedEventHandle st (type (store st ! a)) (Some (params (store st ! a))) of
        Inl e \<Rightarrow> Inl e
      | Inr None \<Rightarrow> Inr (None, st)
      | Inr (Some handle) \<Rightarrow>
          (case map_of (expectedEventSpecs st) handle of
             None \<Rightarrow> Inl TypeError
           | Some eventSpec \<Rightarrow>
               Inr (Some handle,
                    st\<lparr>effects := effects st @
                         map (\<lambda>h. HandlerCall h (Some a) None) (handlers eventSpec),
                       expectedEventSpecs := obj_delete (expectedEventSpecs st) handle\<rparr>)))"

definition expired :: "int \<Rightarrow> eventSpec \<Rightarrow> bool" where
  "expired now eventSpec = (now - added eventSpec > timeout eventSpec)"

definition cleanupExpectedEvents :: "int \<Rightarrow> state \<Rightarrow> state" where
  "cleanupExpectedEvents now st =
     (let expiredEventSpecs = map snd (filter (\<lambda>(handle, eventSpec). expired now eventSpec)
                                              (expectedEventSpecs st))
      in st\<lparr>expectedEventSpecs :=
              filter (\<lambda>(handle, eventSpec). \<not> expired now eventSpec) (expectedEventSpecs st),
            effects := effects st @
              concat (map (\<lambda>eventSpec.
                        map (\<lambda>h. HandlerCall h None
                                   (Some (Error ''Timeout waiting for expected event'')))
                            (handlers eventSpec))
                      expiredEventSpecs)\<rparr>)"

subsection \<open>Listeners\<close>

text \<open>
  What a listener does when called is outside this module. It is a parameter: for the
  registration, the address of the clone it receives and the state of the module at the
  call, the state that the call leaves and the exception it throws, if any (\<open>None\<close> is a
  normal return). So a listener may change its clone and may call the functions that the
  module exports, also those that change \<^verbatim>\<open>eventListeners\<close>.
\<close>

type_synonym behaviour = "listener \<Rightarrow> nat \<Rightarrow> state \<Rightarrow> state \<times> js_error option"

text \<open>
  \<^verbatim>\<open>eventListeners.forEach(...)\<close> in \<^verbatim>\<open>callEventListeners\<close>. \<^verbatim>\<open>forEach\<close> reads the length
  of the array once and then visits the indices below it, in order, on the array as it is
  when the index is reached: \<open>k\<close> is the index, \<open>n\<close> the number of indices still to visit.
  An index that is no longer in the array is passed over. There is no \<^verbatim>\<open>try\<close> around the
  call, so the exception of a listener ends the loop and goes to the caller. The result is
  the state reached and the exception, if any.
\<close>

fun callListeners ::
  "behaviour \<Rightarrow> nat \<Rightarrow> nat \<Rightarrow> nat \<Rightarrow> state \<Rightarrow> state \<times> js_error option" where
  "callListeners beh a k 0 st = (st, None)"
| "callListeners beh a k (Suc n) st =
     (if k < length (eventListeners st) then
        (let l = eventListeners st ! k;
             c = length (store st);
             st1 = st\<lparr>store := store st @ [clone (store st ! a)],
                      effects := effects st @
                        [ListenerCall (callback l) (thisArg l)
                           [ArgEvent c, ArgArguments (args l)]]\<rparr>
         in case beh l c st1 of
              (st2, Some e) \<Rightarrow> (st2, Some e)
            | (st2, None) \<Rightarrow> callListeners beh a (Suc k) n st2)
      else callListeners beh a (Suc k) n st)"

definition callEventListeners :: "behaviour \<Rightarrow> nat \<Rightarrow> state \<Rightarrow> state \<times> js_error option" where
  "callEventListeners beh a st = callListeners beh a 0 (length (eventListeners st)) st"

text \<open>\<^verbatim>\<open>event.expected = true\<close> and \<^verbatim>\<open>event.fake = true\<close> on the object at address \<open>a\<close>.\<close>

definition set_expected :: "nat \<Rightarrow> state \<Rightarrow> state" where
  "set_expected a st = st\<lparr>store := (store st)[a := (store st ! a)\<lparr>expected := True\<rparr>]\<rparr>"

definition set_fake :: "nat \<Rightarrow> state \<Rightarrow> state" where
  "set_fake a st = st\<lparr>store := (store st)[a := (store st ! a)\<lparr>fake := True\<rparr>]\<rparr>"

text \<open>\<^verbatim>\<open>new Event(...)\<close>: the new object is put at the end of the store.\<close>

definition new_Event :: "string \<Rightarrow> js_object \<Rightarrow> state \<Rightarrow> nat \<times> state" where
  "new_Event ty ps st = (length (store st), st\<lparr>store := store st @ [Event ty ps False False]\<rparr>)"

definition handleServerEvent :: "behaviour \<Rightarrow> eventData \<Rightarrow> state \<Rightarrow> state \<times> js_error option" where
  "handleServerEvent beh eventData st =
     (let (a, st1) = new_Event (data_type eventData)
                       (case data_params eventData of None \<Rightarrow> [] | Some p \<Rightarrow> p) st
      in case tryMatchExpectedEvent a st1 of
           Inl e \<Rightarrow> (st1, Some e)
         | Inr (handle, st2) \<Rightarrow>
             callEventListeners beh a (if handle \<noteq> None then set_expected a st2 else st2))"

definition fakeServerEvent ::
  "behaviour \<Rightarrow> string \<Rightarrow> js_object \<Rightarrow> state \<Rightarrow> state \<times> js_error option" where
  "fakeServerEvent beh ty ps st =
     (let (a, st1) = new_Event ty ps st
      in case tryMatchExpectedEvent a st1 of
           Inl e \<Rightarrow> (st1, Some e)
         | Inr (handle, st2) \<Rightarrow>
             callEventListeners beh a
               (set_fake a (if handle \<noteq> None then set_expected a st2 else st2)))"

definition addEventListener :: "nat \<Rightarrow> jsval list \<Rightarrow> state \<Rightarrow> state" where
  "addEventListener eventCallback rest st =
     st\<lparr>eventListeners := eventListeners st @
          [\<lparr>callback = eventCallback,
            thisArg = (case rest of [] \<Rightarrow> VUndefined | t # _ \<Rightarrow> t),
            args = VObj eventCallback # rest\<rparr>]\<rparr>"

fun remove_first :: "nat \<Rightarrow> listener list \<Rightarrow> listener list" where
  "remove_first eventCallback [] = []"
| "remove_first eventCallback (l # ls) =
     (if callback l = eventCallback then ls else l # remove_first eventCallback ls)"

definition removeEventListener :: "nat \<Rightarrow> state \<Rightarrow> state" where
  "removeEventListener eventCallback st =
     st\<lparr>eventListeners := remove_first eventCallback (eventListeners st)\<rparr>"

subsection \<open>The poll loop\<close>

text \<open>
  \<^verbatim>\<open>wait\<close> up to the API call. The random hash of a new session id and the constant
  \<^verbatim>\<open>APIConstants.DEFAULT_SERVER_TIMEOUT\<close> are parameters. The result carries
  \<^verbatim>\<open>requestListeningTime\<close>, which the two continuations of the call close over.
\<close>

definition wait :: "string \<Rightarrow> int \<Rightarrow> bool \<Rightarrow> state \<Rightarrow> int option \<times> state" where
  "wait hash DEFAULT_SERVER_TIMEOUT firstQuick st =
     (let st1 = (if \<not> truthy_str (sessionId st)
                 then st\<lparr>sessionId := Some (''qtoggleserverui-'' @ hash)\<rparr> else st);
          requestListeningTime = listeningTime st1;
          tmo = (if syncListenError st1 \<noteq> None \<or> firstQuick then 1 else LISTEN_KEEPALIVE)
      in (requestListeningTime,
          st1\<lparr>effects := effects st1 @
                [ApiCall (case sessionId st1 of None \<Rightarrow> [] | Some s \<Rightarrow> s)
                         tmo (tmo + DEFAULT_SERVER_TIMEOUT)]\<rparr>))"

text \<open>\<^verbatim>\<open>result.forEach(handleServerEvent)\<close>: an exception ends the loop.\<close>

fun handleServerEvents :: "behaviour \<Rightarrow> eventData list \<Rightarrow> state \<Rightarrow> state \<times> js_error option" where
  "handleServerEvents beh [] st = (st, None)"
| "handleServerEvents beh (eventData # rest) st =
     (case handleServerEvent beh eventData st of
        (st1, Some e) \<Rightarrow> (st1, Some e)
      | (st1, None) \<Rightarrow> handleServerEvents beh rest st1)"

text \<open>
  The continuation \<^verbatim>\<open>.then(function (result) {...})\<close>; \<open>result\<close> is \<open>None\<close> for a
  \<^verbatim>\<open>null\<close> response. The \<^verbatim>\<open>catch\<close> block only logs.
\<close>

definition wait_then :: "behaviour \<Rightarrow> int option \<Rightarrow> eventData list option \<Rightarrow> state \<Rightarrow> state" where
  "wait_then beh requestListeningTime result st =
     (if listeningTime st \<noteq> requestListeningTime then st
      else
        let st1 = st\<lparr>effects := effects st @ [AsapWait],
                     syncListenError := None,
                     listenErrorCount := 0\<rparr>;
            st2 = st1\<lparr>effects := effects st1 @
                        map (\<lambda>c. SyncCall c None) (syncListenCallbacks st1)\<rparr>
        in case result of
             None \<Rightarrow> st2
           | Some events \<Rightarrow>
               if length events \<noteq> 0 then fst (handleServerEvents beh events st2) else st2)"

text \<open>
  The continuation \<^verbatim>\<open>.catch(function (error) {...})\<close>. The constant
  \<^verbatim>\<open>APIConstants.SERVER_RETRY_INTERVAL\<close> is a parameter.
\<close>

definition wait_catch :: "int \<Rightarrow> int option \<Rightarrow> js_error \<Rightarrow> state \<Rightarrow> state" where
  "wait_catch SERVER_RETRY_INTERVAL requestListeningTime error st =
     (if listeningTime st \<noteq> requestListeningTime then st
      else
        let (reconnectSeconds, st1) =
              (if ignoreListenErrors st then (SERVER_RETRY_INTERVAL, st)
               else
                 let st' = st\<lparr>syncListenError := Some error,
                              listenErrorCount := listenErrorCount st + 1\<rparr>;
                     reconnectSeconds =
                       (if listenErrorCount st' \<le> FAST_RECONNECT_LISTEN_ERRORS then 1
                        else SERVER_RETRY_INTERVAL)
                 in (reconnectSeconds,
                     st'\<lparr>effects := effects st' @
                           map (\<lambda>c. SyncCall c (Some reconnectSeconds))
                               (syncListenCallbacks st')\<rparr>))
        in st1\<lparr>effects := effects st1 @ [SetTimeoutWait (reconnectSeconds * 1000)]\<rparr>)"

definition startListening ::
  "int \<Rightarrow> string \<Rightarrow> int \<Rightarrow> state \<Rightarrow> js_error + (int option \<times> state)" where
  "startListening now hash DEFAULT_SERVER_TIMEOUT st =
     (if listeningTime st \<noteq> None \<and> listeningTime st \<noteq> Some 0
      then Inl (AssertionError ''Listening mechanism already active'')
      else Inr (wait hash DEFAULT_SERVER_TIMEOUT True (st\<lparr>listeningTime := Some now\<rparr>)))"

definition stopListening :: "state \<Rightarrow> state" where
  "stopListening st = st\<lparr>listeningTime := None\<rparr>"

definition isListening :: "state \<Rightarrow> bool" where
  "isListening st = (listeningTime st \<noteq> None \<and> listeningTime st \<noteq> Some 0)"

definition addSyncListenCallback :: "nat \<Rightarrow> state \<Rightarrow> state" where
  "addSyncListenCallback listenCallback st =
     st\<lparr>syncListenCallbacks := syncListenCallbacks st @ [listenCallback]\<rparr>"

definition setIgnoreListenErrors :: "bool \<Rightarrow> state \<Rightarrow> state" where
  "setIgnoreListenErrors ignore st = st\<lparr>ignoreListenErrors := ignore\<rparr>"

definition init :: "state \<Rightarrow> state" where
  "init st = st\<lparr>effects := effects st @ [SetIntervalCleanup 1000]\<rparr>"

text \<open>The module as loaded.\<close>

definition initial :: state where
  "initial = \<lparr>eventListeners = [], expectedEventSpecs = [], expectedEventLastHandle = 0,
              sessionId = None, listeningTime = None, listenErrorCount = 0,
              ignoreListenErrors = False, syncListenError = None, syncListenCallbacks = [],
              store = [], promises = 0, effects = []\<rparr>"

subsection \<open>Auxiliary notions for the statements\<close>

text \<open>
  A listener is inert when its call leaves the state of the module as it is: it does not
  call back into the module and does not change an event, it only returns or throws.
\<close>

definition inert :: "behaviour \<Rightarrow> bool" where
  "inert beh = (\<forall>l c st. fst (beh l c st) = st)"

text \<open>The variables of the poll loop that the failure continuation reads.\<close>

definition poll_vars :: "state \<Rightarrow> int option \<times> nat \<times> bool \<times> nat list" where
  "poll_vars st =
     (listeningTime st, listenErrorCount st, ignoreListenErrors st, syncListenCallbacks st)"

text \<open>Listeners that return normally; and the listener with callback 3 throwing.\<close>

definition quiet :: behaviour where
  "quiet l c st = (st, None)"

definition throwing3 :: behaviour where
  "throwing3 l c st = (st, if callback l = 3 then Some (Error ''boom'') else None)"

text \<open>The listener with callback 3 removes itself when called.\<close>

definition removing3 :: behaviour where
  "removing3 l c st = (if callback l = 3 then removeEventListener 3 st else st, None)"

text \<open>
  A session that was started at time 1000, stopped, and started again at time 2000, with
  one expectation, one listener and one sync callback registered.
\<close>

definition st_restarted :: state where
  "st_restarted =
     (case startListening 1000 ''ab'' 10
             (addSyncListenCallback 7 (addEventListener 3 []
                (snd (expectEvent 900 (Some ''x'') None None initial)))) of
        Inl e \<Rightarrow> initial
      | Inr (t1, st1) \<Rightarrow>
          (case startListening 2000 ''ab'' 10 (stopListening st1) of
             Inl e \<Rightarrow> initial
           | Inr (t2, st2) \<Rightarrow> st2))"

text \<open>
  The registry as the module builds it: the handles ascend strictly and none exceeds the
  last handle given out. It holds in the module as loaded and the functions of the registry
  keep it, so the keys of the registry are distinct.
\<close>

definition wf_registry :: "state \<Rightarrow> bool" where
  "wf_registry st =
     (sorted_wrt (<) (map fst (expectedEventSpecs st)) \<and>
      list_all (\<lambda>k. k \<le> expectedEventLastHandle st) (map fst (expectedEventSpecs st)))"

text \<open>A run of consecutive failed listen requests of one generation.\<close>

fun failures :: "int \<Rightarrow> int option \<Rightarrow> js_error list \<Rightarrow> state \<Rightarrow> state" where
  "failures SERVER_RETRY_INTERVAL requestListeningTime [] st = st"
| "failures SERVER_RETRY_INTERVAL requestListeningTime (error # errors) st =
     failures SERVER_RETRY_INTERVAL requestListeningTime errors
       (wait_catch SERVER_RETRY_INTERVAL requestListeningTime error st)"

text \<open>
  An event is dispatched either from a record of a listen response or locally by
  \<^verbatim>\<open>fakeServerEvent\<close>.
\<close>

datatype occurrence = Received eventData | Synthesized string js_object

fun dispatch :: "behaviour \<Rightarrow> occurrence \<Rightarrow> state \<Rightarrow> state \<times> js_error option" where
  "dispatch beh (Received eventData) st = handleServerEvent beh eventData st"
| "dispatch beh (Synthesized ty ps) st = fakeServerEvent beh ty ps st"

fun event_type :: "occurrence \<Rightarrow> string" where
  "event_type (Received eventData) = data_type eventData"
| "event_type (Synthesized ty ps) = ty"

fun event_params :: "occurrence \<Rightarrow> js_object" where
  "event_params (Received eventData) =
     (case data_params eventData of None \<Rightarrow> [] | Some p \<Rightarrow> p)"
| "event_params (Synthesized ty ps) = ps"

fun is_fake :: "occurrence \<Rightarrow> bool" where
  "is_fake (Received eventData) = False"
| "is_fake (Synthesized ty ps) = True"

text \<open>The calls \<^verbatim>\<open>h(null, err)\<close> to the handlers of one entry, in order.\<close>

definition notify :: "js_error \<Rightarrow> eventSpec \<Rightarrow> effect list" where
  "notify err eventSpec = map (\<lambda>h. HandlerCall h None (Some err)) (handlers eventSpec)"

text \<open>
  The matching rule in the words of the specification: the entry's type, when set, equals
  the candidate's type, and every key of the entry's params, when set, has an identical
  value in the candidate's params. A type is set when it is neither \<^verbatim>\<open>null\<close> nor the empty
  string; the value of a key in the candidate's params is what \<^verbatim>\<open>params[key]\<close> reads;
  identical means \<^verbatim>\<open>===\<close>.
\<close>

definition matches :: "string \<Rightarrow> js_object \<Rightarrow> eventSpec \<Rightarrow> bool" where
  "matches ty p eventSpec =
     ((truthy_str (spec_type eventSpec) \<longrightarrow> spec_type eventSpec = Some ty) \<and>
      (case spec_params eventSpec of
         None \<Rightarrow> True
       | Some sp \<Rightarrow> list_all (\<lambda>(key, v). \<not> strict_neq (get_prop p key) v) sp))"

text \<open>The key of the first entry of the registry, in enumeration order, that matches.\<close>

fun first_key :: "(nat \<times> eventSpec) list \<Rightarrow> string \<Rightarrow> js_object \<Rightarrow> nat option" where
  "first_key [] ty p = None"
| "first_key ((k, e) # r) ty p = (if matches ty p e then Some k else first_key r ty p)"

text \<open>
  The state in which the fan-out of a dispatched event starts. The event is a new object at
  the end of the store. If no entry matches, nothing else has changed. Otherwise the
  handlers of the entry under the first matching key have been called with the event, that
  key has been deleted from the registry and the event is marked expected.
\<close>

definition resolved :: "occurrence \<Rightarrow> state \<Rightarrow> state" where
  "resolved x st =
     (let a = length (store st);
          ev = \<lparr>type = event_type x, params = event_params x,
                expected = False, fake = is_fake x\<rparr>
      in case first_key (expectedEventSpecs st) (event_type x) (event_params x) of
           None \<Rightarrow> st\<lparr>store := store st @ [ev]\<rparr>
         | Some h \<Rightarrow>
             (case map_of (expectedEventSpecs st) h of
                None \<Rightarrow> st\<lparr>store := store st @ [ev]\<rparr>
              | Some v \<Rightarrow>
                  st\<lparr>expectedEventSpecs := obj_delete (expectedEventSpecs st) h,
                     store := store st @ [ev\<lparr>expected := True\<rparr>],
                     effects := effects st @
                       map (\<lambda>y. HandlerCall y (Some a) None) (handlers v)\<rparr>))"

text \<open>
  The loop over a given list of listeners: each of them is called, in the order of the
  list, with a clone of its own of the event at address \<open>a\<close>, until one throws.
\<close>

fun callEach :: "behaviour \<Rightarrow> nat \<Rightarrow> listener list \<Rightarrow> state \<Rightarrow> state \<times> js_error option" where
  "callEach beh a [] st = (st, None)"
| "callEach beh a (l # ls) st =
     (let c = length (store st);
          st1 = st\<lparr>store := store st @ [clone (store st ! a)],
                   effects := effects st @
                     [ListenerCall (callback l) (thisArg l)
                        [ArgEvent c, ArgArguments (args l)]]\<rparr>
      in case beh l c st1 of
           (st2, Some e) \<Rightarrow> (st2, Some e)
         | (st2, None) \<Rightarrow> callEach beh a ls st2)"

text \<open>
  The listeners of a list that the loop calls, namely those up to and including the first
  that throws, and the exception that ends the loop, if any.
\<close>

fun invoked :: "behaviour \<Rightarrow> nat \<Rightarrow> listener list \<Rightarrow> state \<Rightarrow> listener list" where
  "invoked beh a [] st = []"
| "invoked beh a (l # ls) st =
     (let c = length (store st);
          st1 = st\<lparr>store := store st @ [clone (store st ! a)],
                   effects := effects st @
                     [ListenerCall (callback l) (thisArg l)
                        [ArgEvent c, ArgArguments (args l)]]\<rparr>
      in l # (case beh l c st1 of
                (st2, Some e) \<Rightarrow> []
              | (st2, None) \<Rightarrow> invoked beh a ls st2))"

fun thrown :: "behaviour \<Rightarrow> nat \<Rightarrow> listener list \<Rightarrow> state \<Rightarrow> js_error option" where
  "thrown beh a [] st = None"
| "thrown beh a (l # ls) st =
     (let c = length (store st);
          st1 = st\<lparr>store := store st @ [clone (store st ! a)],
                   effects := effects st @
                     [ListenerCall (callback l) (thisArg l)
                        [ArgEvent c, ArgArguments (args l)]]\<rparr>
      in case beh l c st1 of
           (st2, Some e) \<Rightarrow> Some e
         | (st2, None) \<Rightarrow> thrown beh a ls st2)"

text \<open>The calls of the listeners of a list, the first clone being stored at address \<open>c\<close>.\<close>

fun listener_calls :: "nat \<Rightarrow> listener list \<Rightarrow> effect list" where
  "listener_calls c [] = []"
| "listener_calls c (l # ls) =
     ListenerCall (callback l) (thisArg l) [ArgEvent c, ArgArguments (args l)] #
     listener_calls (Suc c) ls"

text \<open>
  The fan-out of the event at address \<open>a\<close> to inert listeners: every listener called gets
  a new object with the content of the event, and the calls are logged in order.
\<close>

definition fanout :: "behaviour \<Rightarrow> nat \<Rightarrow> state \<Rightarrow> state \<times> js_error option" where
  "fanout beh a st =
     (let inv = invoked beh a (eventListeners st) st
      in (st\<lparr>store := store st @ replicate (length inv) (store st ! a),
             effects := effects st @ listener_calls (length (store st)) inv\<rparr>,
          thrown beh a (eventListeners st) st))"



text \<open>
  For inert listeners, the state in which listener number \<open>i\<close> of \<open>ls\<close> runs, counted
  from 0: the clones for it and for the listeners before it have been made and their
  calls logged.
\<close>

definition before_call :: "nat \<Rightarrow> listener list \<Rightarrow> nat \<Rightarrow> state \<Rightarrow> state" where
  "before_call a ls i st =
     st\<lparr>store := store st @ replicate (Suc i) (store st ! a),
        effects := effects st @ listener_calls (length (store st)) (take (Suc i) ls)\<rparr>"

text \<open>
  The handlers that the resolution of a dispatched event calls: those of the entry under
  the first matching key, none when no entry matches.
\<close>

definition resolving :: "occurrence \<Rightarrow> state \<Rightarrow> nat list" where
  "resolving x st =
     (case first_key (expectedEventSpecs st) (event_type x) (event_params x) of
        None \<Rightarrow> []
      | Some h \<Rightarrow>
          (case map_of (expectedEventSpecs st) h of
             None \<Rightarrow> []
           | Some v \<Rightarrow> handlers v))"




text \<open>
  The deliveries to listeners in the order of the calls: the callback, its
  \<^verbatim>\<open>this\<close> and the address of the event that is its first argument.
\<close>

fun deliveries :: "effect list \<Rightarrow> (nat \<times> jsval \<times> nat) list" where
  "deliveries [] = []"
| "deliveries (ListenerCall cb t (ArgEvent c # as) # xs) = (cb, t, c) # deliveries xs"
| "deliveries (x # xs) = deliveries xs"

definition listener_events :: "effect list \<Rightarrow> nat list" where
  "listener_events xs = map (\<lambda>(cb, t, c). c) (deliveries xs)"


text \<open>What the effects log got between two states.\<close>

definition new_effects :: "state \<Rightarrow> state \<Rightarrow> effect list" where
  "new_effects st st' = drop (length (effects st)) (effects st')"

subsection \<open>Example states\<close>

text \<open>
  Two listeners; an expectation of \<^verbatim>\<open>port-update\<close> events with \<^verbatim>\<open>{id: "p1"}\<close> (handle 1),
  joined by one \<^verbatim>\<open>waitExpectedEvent\<close>; a second expectation of any \<^verbatim>\<open>port-update\<close> event
  (handle 2).
\<close>

definition st_example :: state where
  "st_example =
     (let st1 = addEventListener 4 [VObj 9, VStr ''extra''] (addEventListener 3 [] initial);
          (h1, st2) = expectEvent 0 (Some ''port-update'') (Some [(''id'', VStr ''p1'')])
                        (Some 5000) st1;
          st3 = (case waitExpectedEvent ''port-update'' (Some [(''id'', VStr ''p1'')]) st2 of
                   Inl e \<Rightarrow> st2 | Inr (p, s) \<Rightarrow> s);
          (h2, st4) = expectEvent 10 (Some ''port-update'') None None st3
      in st4)"

text \<open>The event \<^verbatim>\<open>{type: "port-update", params: {id: "p1", value: 42}}\<close>.\<close>

definition port_update :: eventData where
  "port_update = \<lparr>data_type = ''port-update'',
                  data_params = Some [(''id'', VStr ''p1''), (''value'', VNum 42)]\<rparr>"

text \<open>A \<^verbatim>\<open>port-update\<close> record without params.\<close>

definition port_update_bare :: eventData where
  "port_update_bare = \<lparr>data_type = ''port-update'', data_params = None\<rparr>"

text \<open>The example state with that event constructed, and then matched.\<close>

definition st_event :: state where
  "st_event = snd (new_Event ''port-update'' [(''id'', VStr ''p1''), (''value'', VNum 42)]
                     st_example)"

definition st_matched :: state where
  "st_matched = (case tryMatchExpectedEvent 0 st_event of
                   Inl e \<Rightarrow> st_event | Inr (h, s) \<Rightarrow> s)"

text \<open>One expectation of \<^verbatim>\<open>x\<close> events with \<^verbatim>\<open>{a: 1}\<close>.\<close>

definition st_one :: state where
  "st_one = snd (expectEvent 0 (Some ''x'') (Some [(''a'', VNum 1)]) None initial)"



section \<open>Properties\<close>

subsection \<open>Lookup and matching\<close>

lemma obj_delete_absent: "map_of obj k = None \<Longrightarrow> obj_delete obj k = obj"
  by (induction obj) (auto simp: obj_delete_def split: if_splits)

lemma obj_delete_keys: "k \<notin> fst ` set (obj_delete obj k)"
  by (auto simp: obj_delete_def)

lemma map_of_obj_delete: "map_of (obj_delete obj k) k = None"
  by (simp add: map_of_eq_None_iff obj_delete_keys)

lemma unexpectEvent_absent: "map_of (expectedEventSpecs st) handle = None \<Longrightarrow> unexpectEvent handle st = st"
  by (simp add: unexpectEvent_def obj_delete_absent)

lemma cleanup_registry:
  "expectedEventSpecs (cleanupExpectedEvents now st) =
     filter (\<lambda>(h, e). \<not> expired now e) (expectedEventSpecs st)"
  by (simp add: cleanupExpectedEvents_def)

lemma cleanup_effects:
  "effects (cleanupExpectedEvents now st) =
     effects st @ concat (map (\<lambda>(h, e). notify (Error ''Timeout waiting for expected event'') e)
                            (filter (\<lambda>(h, e). expired now e) (expectedEventSpecs st)))"
  by (simp add: cleanupExpectedEvents_def notify_def comp_def case_prod_unfold)

lemma tryMatch_registry:
  "tryMatchExpectedEvent a st = Inr (Some h, st') \<Longrightarrow>
     expectedEventSpecs st' = filter (\<lambda>(k, e). k \<noteq> h) (expectedEventSpecs st)"
  by (auto simp: tryMatchExpectedEvent_def obj_delete_def split: sum.splits option.splits)

lemma specMatches_matches: "specMatches ty (Some p) e = Inr (matches ty p e)"
  by (auto simp: specMatches_def matches_def Let_def list_all_iff filter_empty_conv
      split: option.splits)

lemma findKey_first:
  "\<forall>(k, e) \<in> set pre. func e = Inr False \<Longrightarrow> func v = Inr True \<Longrightarrow>
     findKey (pre @ (h, v) # post) func = Inr (Some h)"
  by (induction pre) auto

lemma findKey_none:
  "\<forall>(k, e) \<in> set obj. func e = Inr False \<Longrightarrow> findKey obj func = Inr None"
  by (induction obj) auto


lemma map_of_middle:
  "distinct (map fst (pre @ (h, v) # post)) \<Longrightarrow> map_of (pre @ (h, v) # post) h = Some v"
  by (induction pre) auto


lemma clone_id: "clone e = e"
  by (simp add: clone_def Event_def copy_def)

lemma tryMatch_new_Event:
  "tryMatchExpectedEvent (length (store st)) (st\<lparr>store := store st @ [ev]\<rparr>) =
     (case lookupExpectedEventHandle st (type ev) (Some (params ev)) of
        Inl e \<Rightarrow> Inl e
      | Inr None \<Rightarrow> Inr (None, st\<lparr>store := store st @ [ev]\<rparr>)
      | Inr (Some handle) \<Rightarrow>
          (case map_of (expectedEventSpecs st) handle of
             None \<Rightarrow> Inl TypeError
           | Some eventSpec \<Rightarrow>
               Inr (Some handle,
                    st\<lparr>store := store st @ [ev],
                       effects := effects st @
                         map (\<lambda>h. HandlerCall h (Some (length (store st))) None) (handlers eventSpec),
                       expectedEventSpecs := obj_delete (expectedEventSpecs st) handle\<rparr>)))"
  by (simp add: tryMatchExpectedEvent_def lookupExpectedEventHandle_def
      split: sum.splits option.splits)

lemma lookup_first:
  assumes "expectedEventSpecs st = pre @ (h, v) # post"
    and "\<forall>(k, e) \<in> set pre. \<not> matches ty p e" and "matches ty p v"
  shows "lookupExpectedEventHandle st ty (Some p) = Inr (Some h)"
  unfolding lookupExpectedEventHandle_def assms(1)
  using assms(2,3) by (intro findKey_first) (auto simp: specMatches_matches)

lemma lookup_none:
  assumes "\<forall>(k, e) \<in> set (expectedEventSpecs st). \<not> matches ty p e"
  shows "lookupExpectedEventHandle st ty (Some p) = Inr None"
  unfolding lookupExpectedEventHandle_def
  using assms by (intro findKey_none) (auto simp: specMatches_matches)

lemma lookup_some:
  assumes "\<exists>(k, e) \<in> set (expectedEventSpecs st). matches ty p e"
  shows "\<exists>h v. lookupExpectedEventHandle st ty (Some p) = Inr (Some h) \<and>
               map_of (expectedEventSpecs st) h = Some v"
proof -
  from split_list_first_prop [OF assms]
  obtain pre x post where d: "expectedEventSpecs st = pre @ x # post"
    and x: "(case x of (k, e) \<Rightarrow> matches ty p e)"
    and pre: "\<forall>y \<in> set pre. \<not> (case y of (k, e) \<Rightarrow> matches ty p e)"
    by blast
  obtain h v where hv: "x = (h, v)" by (cases x)
  have l: "lookupExpectedEventHandle st ty (Some p) = Inr (Some h)"
    using d x pre hv by (intro lookup_first [of st pre h v post]) auto
  have "h \<in> fst ` set (expectedEventSpecs st)"
    using d hv by (simp add: image_iff)
  then obtain w where "map_of (expectedEventSpecs st) h = Some w"
    by (cases "map_of (expectedEventSpecs st) h") (auto simp: map_of_eq_None_iff)
  with l show ?thesis by blast
qed


lemma deliveries_append: "deliveries (xs @ ys) = deliveries xs @ deliveries ys"
  by (induction xs rule: deliveries.induct) auto

lemma deliveries_handler_calls: "deliveries (map (\<lambda>y. HandlerCall y a e) hs) = []"
  by (induction hs) auto

lemma deliveries_listener_calls:
  "deliveries (listener_calls c ls) =
     map (\<lambda>(l, i). (callback l, thisArg l, i)) (zip ls [c..<c + length ls])"
proof (induction ls arbitrary: c)
  case Nil
  show ?case by simp
next
  case (Cons l ls)
  have "c < c + length (l # ls)" by simp
  from upt_conv_Cons [OF this]
  have "[c..<c + length (l # ls)] = c # [Suc c..<Suc c + length ls]"
    by simp
  then show ?case using Cons.IH [of "Suc c"] by simp
qed

lemma listener_events_listener_calls:
  "listener_events (listener_calls c ls) = [c..<c + length ls]"
proof -
  have "map (\<lambda>(cb, t, c). c) (map (\<lambda>(l, i). (callback l, thisArg l, i)) (zip ls [c..<c + length ls]))
        = map snd (zip ls [c..<c + length ls])"
    by (simp add: case_prod_unfold comp_def)
  then show ?thesis
    by (simp add: listener_events_def deliveries_listener_calls)
qed





subsection \<open>The example states, evaluated\<close>

lemma st_example_eq:
  "st_example =
     \<lparr>eventListeners = [\<lparr>callback = 3, thisArg = VUndefined, args = [VObj 3]\<rparr>,
                        \<lparr>callback = 4, thisArg = VObj 9, args = [VObj 4, VObj 9, VStr ''extra'']\<rparr>],
      expectedEventSpecs =
        [(1, \<lparr>spec_type = Some ''port-update'', spec_params = Some [(''id'', VStr ''p1'')],
               added = 0, timeout = 5000, handlers = [0]\<rparr>),
         (2, \<lparr>spec_type = Some ''port-update'', spec_params = None,
               added = 10, timeout = 60000, handlers = []\<rparr>)],
      expectedEventLastHandle = 2, sessionId = None, listeningTime = None,
      listenErrorCount = 0, ignoreListenErrors = False, syncListenError = None,
      syncListenCallbacks = [], store = [], promises = 1, effects = []\<rparr>"
  by (simp add: st_example_def addEventListener_def expectEvent_def waitExpectedEvent_def
      lookupExpectedEventHandle_def specMatches_def truthy_str_def strict_neq_def get_prop_def Object_prototype_def
      initial_def Let_def DEFAULT_EXPECT_TIMEOUT_def)

lemma st_event_eq:
  "st_event = st_example\<lparr>store := [\<lparr>type = ''port-update'',
       params = [(''id'', VStr ''p1''), (''value'', VNum 42)], expected = False, fake = False\<rparr>]\<rparr>"
  by (simp add: st_event_def new_Event_def Event_def copy_def st_example_eq)

lemma st_event_tryMatch:
  "tryMatchExpectedEvent 0 st_event =
     Inr (Some 1, st_event\<lparr>expectedEventSpecs :=
                              [(2, \<lparr>spec_type = Some ''port-update'', spec_params = None,
                                     added = 10, timeout = 60000, handlers = []\<rparr>)],
                            effects := [HandlerCall 0 (Some 0) None]\<rparr>)"
  by (simp add: st_event_eq st_example_eq tryMatchExpectedEvent_def
      lookupExpectedEventHandle_def specMatches_def truthy_str_def strict_neq_def get_prop_def Object_prototype_def
      obj_delete_def Let_def)

lemma st_matched_eq:
  "st_matched = st_event\<lparr>expectedEventSpecs :=
                             [(2, \<lparr>spec_type = Some ''port-update'', spec_params = None,
                                    added = 10, timeout = 60000, handlers = []\<rparr>)],
                           effects := [HandlerCall 0 (Some 0) None]\<rparr>"
  by (simp add: st_matched_def st_event_tryMatch)

lemma st_event_match:
  "tryMatchExpectedEvent 0 st_event = Inr (Some 1, st_matched)"
  by (simp add: st_event_tryMatch st_matched_eq)



lemma example_dispatch:
  "new_effects st_example (fst (handleServerEvent quiet port_update st_example)) =
     [HandlerCall 0 (Some 0) None,
      ListenerCall 3 VUndefined [ArgEvent 1, ArgArguments [VObj 3]],
      ListenerCall 4 (VObj 9) [ArgEvent 2, ArgArguments [VObj 4, VObj 9, VStr ''extra'']]]"
  by (simp add: new_effects_def st_example_eq port_update_def handleServerEvent_def
      new_Event_def Event_def copy_def clone_def tryMatchExpectedEvent_def
      lookupExpectedEventHandle_def specMatches_def truthy_str_def strict_neq_def get_prop_def Object_prototype_def
      obj_delete_def callEventListeners_def set_expected_def quiet_def Let_def)


text \<open>
  A key of an entry's params that the event's params lack is read through the prototype:
  the entry \<^verbatim>\<open>{toString: undefined}\<close> does not match an event with the params \<^verbatim>\<open>{}\<close>,
  since \<^verbatim>\<open>params["toString"]\<close> is the inherited function; a key that no prototype has reads
  \<^verbatim>\<open>undefined\<close>, so the entry \<^verbatim>\<open>{a: undefined}\<close> does match.
\<close>

lemma inherited_member_read:
  "get_prop [] ''toString'' = VBuiltin ''toString'' \<and>
   get_prop [] ''a'' = VUndefined \<and>
   specMatches ''x'' (Some [])
     \<lparr>spec_type = Some ''x'', spec_params = Some [(''toString'', VUndefined)],
      added = 0, timeout = 1, handlers = []\<rparr> = Inr False \<and>
   specMatches ''x'' (Some [])
     \<lparr>spec_type = Some ''x'', spec_params = Some [(''a'', VUndefined)],
      added = 0, timeout = 1, handlers = []\<rparr> = Inr True"
  by (simp add: specMatches_def get_prop_def Object_prototype_def strict_neq_def truthy_str_def)
subsection \<open>The state in which the fan-out starts\<close>


lemma first_key_lookup:
  "lookupExpectedEventHandle st ty (Some p) = Inr (first_key (expectedEventSpecs st) ty p)"
proof -
  have "findKey r (specMatches ty (Some p)) = Inr (first_key r ty p)" for r
    by (induction r) (auto simp: specMatches_matches)
  then show ?thesis by (simp add: lookupExpectedEventHandle_def)
qed

lemma first_key_mem: "first_key r ty p = Some k \<Longrightarrow> k \<in> fst ` set r"
  by (induction r) (auto split: if_splits)

lemma first_key_Some_iff:
  "(first_key r ty p \<noteq> None) = (\<exists>(k, e) \<in> set r. matches ty p e)"
  by (induction r) auto


lemma dispatch_resolved:
  "dispatch beh x st = callEventListeners beh (length (store st)) (resolved x st)"
proof (cases "first_key (expectedEventSpecs st) (event_type x) (event_params x)")
  case None
  then show ?thesis
    by (cases x)
       (simp_all add: handleServerEvent_def fakeServerEvent_def new_Event_def
          tryMatch_new_Event first_key_lookup resolved_def set_fake_def Event_def copy_def
          Let_def)
next
  case (Some h)
  then have "h \<in> fst ` set (expectedEventSpecs st)" by (rule first_key_mem)
  then obtain v where m: "map_of (expectedEventSpecs st) h = Some v"
    by (cases "map_of (expectedEventSpecs st) h") (auto simp: map_of_eq_None_iff)
  have eq: "\<And>A B. A = B \<Longrightarrow>
      callEventListeners beh (length (store st)) A = callEventListeners beh (length (store st)) B"
    by simp
  show ?thesis
    using Some m
    by (cases x)
       (auto simp: handleServerEvent_def fakeServerEvent_def new_Event_def
          tryMatch_new_Event first_key_lookup resolved_def set_fake_def set_expected_def
          Event_def copy_def Let_def intro!: eq state.equality)
qed


lemma resolved_none:
  assumes "\<forall>(k, e) \<in> set (expectedEventSpecs st). \<not> matches (event_type x) (event_params x) e"
  shows "resolved x st =
     st\<lparr>store := store st @ [\<lparr>type = event_type x, params = event_params x,
                              expected = False, fake = is_fake x\<rparr>]\<rparr>"
proof -
  have "first_key (expectedEventSpecs st) (event_type x) (event_params x) = None"
    using assms first_key_Some_iff [of "expectedEventSpecs st" "event_type x" "event_params x"]
    by auto
  then show ?thesis by (simp add: resolved_def Let_def)
qed

lemma resolved_shape:
  "\<exists>w reg'. resolved x st =
     st\<lparr>expectedEventSpecs := reg',
        store := store st @ [\<lparr>type = event_type x, params = event_params x,
           expected = (\<exists>(k, e) \<in> set (expectedEventSpecs st).
                         matches (event_type x) (event_params x) e),
           fake = is_fake x\<rparr>],
        effects := effects st @ map (\<lambda>y. HandlerCall y (Some (length (store st))) None) w\<rparr>"
proof (cases "first_key (expectedEventSpecs st) (event_type x) (event_params x)")
  case None
  then have n: "\<not> (\<exists>(k, e) \<in> set (expectedEventSpecs st).
                     matches (event_type x) (event_params x) e)"
    using first_key_Some_iff [of "expectedEventSpecs st" "event_type x" "event_params x"]
    by simp
  have "resolved x st =
     st\<lparr>expectedEventSpecs := expectedEventSpecs st,
        store := store st @ [\<lparr>type = event_type x, params = event_params x,
           expected = False, fake = is_fake x\<rparr>],
        effects := effects st @ map (\<lambda>y. HandlerCall y (Some (length (store st))) None) []\<rparr>"
    using None by (simp add: resolved_def Let_def)
  then show ?thesis using n by (intro exI [of _ "[]"] exI [of _ "expectedEventSpecs st"]) simp
next
  case (Some h)
  then have y: "\<exists>(k, e) \<in> set (expectedEventSpecs st).
                  matches (event_type x) (event_params x) e"
    using first_key_Some_iff [of "expectedEventSpecs st" "event_type x" "event_params x"]
    by simp
  from Some have "h \<in> fst ` set (expectedEventSpecs st)" by (rule first_key_mem)
  then obtain v where m: "map_of (expectedEventSpecs st) h = Some v"
    by (cases "map_of (expectedEventSpecs st) h") (auto simp: map_of_eq_None_iff)
  have "resolved x st =
     st\<lparr>expectedEventSpecs := obj_delete (expectedEventSpecs st) h,
        store := store st @ [\<lparr>type = event_type x, params = event_params x,
           expected = True, fake = is_fake x\<rparr>],
        effects := effects st @
          map (\<lambda>y. HandlerCall y (Some (length (store st))) None) (handlers v)\<rparr>"
    using Some m by (simp add: resolved_def Let_def)
  then show ?thesis using y
    by (intro exI [of _ "handlers v"] exI [of _ "obj_delete (expectedEventSpecs st) h"]) simp
qed

lemma callListeners_callEach:
  assumes "\<forall>l c s. prefix (eventListeners s) (eventListeners (fst (beh l c s)))"
  shows "k + n \<le> length (eventListeners st) \<Longrightarrow>
         callListeners beh a k n st = callEach beh a (take n (drop k (eventListeners st))) st"
proof (induction n arbitrary: k st)
  case 0
  then show ?case by simp
next
  case (Suc n)
  let ?L = "eventListeners st"
  let ?l = "?L ! k"
  let ?c = "length (store st)"
  let ?st1 = "st\<lparr>store := store st @ [clone (store st ! a)],
                 effects := effects st @
                   [ListenerCall (callback ?l) (thisArg ?l) [ArgEvent ?c, ArgArguments (args ?l)]]\<rparr>"
  have k: "k < length ?L" using Suc.prems by simp
  have d: "take (Suc n) (drop k ?L) = ?l # take n (drop (Suc k) ?L)"
    using k by (simp add: Cons_nth_drop_Suc [symmetric])
  obtain st2 r where b: "beh ?l ?c ?st1 = (st2, r)" by (cases "beh ?l ?c ?st1")
  have "prefix (eventListeners ?st1) (eventListeners (fst (beh ?l ?c ?st1)))"
    using assms by blast
  then obtain X where e2: "eventListeners st2 = ?L @ X"
    using b by (auto simp: prefix_def)
  show ?case
  proof (cases r)
    case None
    have le: "Suc k + n \<le> length (eventListeners st2)" using Suc.prems e2 by simp
    have "take n (drop (Suc k) (eventListeners st2)) = take n (drop (Suc k) ?L)"
      using Suc.prems unfolding e2 by simp
    with Suc.IH [OF le] show ?thesis
      using k b None by (simp add: d Let_def del: take_Suc_Cons)
  next
    case (Some e)
    then show ?thesis using k b by (simp add: d Let_def)
  qed
qed

subsection \<open>The fan-out\<close>

lemma snd_callEach: "snd (callEach beh a ls st) = thrown beh a ls st"
  by (induction ls arbitrary: st) (auto simp: Let_def split: prod.splits option.splits)

lemma invoked_prefix: "prefix (invoked beh a ls st) ls"
  by (induction ls arbitrary: st) (auto simp: Let_def split: prod.splits option.splits)

lemma thrown_None: "thrown beh a ls st = None \<Longrightarrow> invoked beh a ls st = ls"
  by (induction ls arbitrary: st) (auto simp: Let_def split: prod.splits option.splits)

lemma inert_eq: "inert beh \<Longrightarrow> beh l c st = (st, snd (beh l c st))"
  by (metis inert_def prod.collapse)

lemma callEach_inert:
  assumes "inert beh"
  shows "a < length (store st) \<Longrightarrow>
     callEach beh a ls st =
       (st\<lparr>store := store st @ replicate (length (invoked beh a ls st)) (store st ! a),
           effects := effects st @ listener_calls (length (store st)) (invoked beh a ls st)\<rparr>,
        thrown beh a ls st)"
proof (induction ls arbitrary: st)
  case Nil
  show ?case by simp
next
  case (Cons l ls)
  let ?c = "length (store st)"
  let ?st1 = "st\<lparr>store := store st @ [clone (store st ! a)],
                 effects := effects st @
                   [ListenerCall (callback l) (thisArg l) [ArgEvent ?c, ArgArguments (args l)]]\<rparr>"
  have b: "beh l ?c ?st1 = (?st1, snd (beh l ?c ?st1))" by (rule inert_eq [OF assms])
  have a1: "a < length (store ?st1)" using Cons.prems by simp
  have s1: "store ?st1 ! a = store st ! a" using Cons.prems by (simp add: nth_append)
  show ?case
  proof (cases "snd (beh l ?c ?st1)")
    case None
    then have b': "beh l ?c ?st1 = (?st1, None)" using b by simp
    show ?thesis
      using Cons.IH [OF a1] s1 b'
      by (simp add: Let_def clone_id)
  next
    case (Some e)
    then have b': "beh l ?c ?st1 = (?st1, Some e)" using b by simp
    show ?thesis using b' by (simp add: Let_def clone_id)
  qed
qed

lemma callEventListeners_callEach:
  assumes "\<forall>l c s. prefix (eventListeners s) (eventListeners (fst (beh l c s)))"
  shows "callEventListeners beh a st = callEach beh a (eventListeners st) st"
  using callListeners_callEach [OF assms, of 0 "length (eventListeners st)" st a]
  by (simp add: callEventListeners_def)

lemma callEventListeners_inert:
  assumes "inert beh" and "a < length (store st)"
  shows "callEventListeners beh a st = fanout beh a st"
proof -
  have "\<forall>l c s. prefix (eventListeners s) (eventListeners (fst (beh l c s)))"
    using assms(1) by (simp add: inert_def)
  from callEventListeners_callEach [OF this] show ?thesis
    using callEach_inert [OF assms] by (simp add: fanout_def Let_def)
qed

lemma length_store_resolved: "length (store (resolved x st)) = Suc (length (store st))"
  by (simp add: resolved_def Let_def split: option.splits)

lemma dispatch_inert:
  assumes "inert beh"
  shows "dispatch beh x st = fanout beh (length (store st)) (resolved x st)"
  unfolding dispatch_resolved
  by (rule callEventListeners_inert [OF assms]) (simp add: length_store_resolved)

lemma thrown_Some:
  assumes "inert beh"
  shows "thrown beh a ls st = Some e \<Longrightarrow> a < length (store st) \<Longrightarrow>
     invoked beh a ls st \<noteq> [] \<and>
     snd (beh (last (invoked beh a ls st))
            (length (store st) + (length (invoked beh a ls st) - 1))
            (before_call a (invoked beh a ls st) (length (invoked beh a ls st) - 1) st)) = Some e"
proof (induction ls arbitrary: st)
  case Nil
  then show ?case by simp
next
  case (Cons l ls)
  let ?c = "length (store st)"
  let ?st1 = "st\<lparr>store := store st @ [clone (store st ! a)],
                 effects := effects st @
                   [ListenerCall (callback l) (thisArg l) [ArgEvent ?c, ArgArguments (args l)]]\<rparr>"
  have b: "beh l ?c ?st1 = (?st1, snd (beh l ?c ?st1))" by (rule inert_eq [OF assms])
  have a1: "a < length (store ?st1)" using Cons.prems by simp
  have s1: "store ?st1 ! a = store st ! a" using Cons.prems by (simp add: nth_append)
  have bc0: "before_call a [l] 0 st = ?st1"
    by (simp add: before_call_def clone_id)
  show ?case
  proof (cases "snd (beh l ?c ?st1)")
    case None
    then have b': "beh l ?c ?st1 = (?st1, None)" using b by simp
    let ?inv = "invoked beh a ls ?st1"
    have t: "thrown beh a ls ?st1 = Some e" using Cons.prems(1) b' by (simp add: Let_def)
    from Cons.IH [OF t a1] have ne: "?inv \<noteq> []"
      and ih: "snd (beh (last ?inv) (length (store ?st1) + (length ?inv - 1))
                 (before_call a ?inv (length ?inv - 1) ?st1)) = Some e" by blast+
    have i: "invoked beh a (l # ls) st = l # ?inv" using b' by (simp add: Let_def)
    obtain n where n: "length ?inv = Suc n" using ne by (cases ?inv) simp_all
    have bc: "before_call a (l # ?inv) (Suc n) st = before_call a ?inv n ?st1"
      using s1 by (simp add: before_call_def clone_id)
    have ih': "snd (beh (last ?inv) (Suc (length (store st) + n)) (before_call a ?inv n ?st1))
                 = Some e"
      using ih n by simp
    show ?thesis
      unfolding i using ne ih' n by (simp add: bc)
  next
    case (Some e')
    then have b': "beh l ?c ?st1 = (?st1, Some e')" using b by simp
    have "e' = e" using Cons.prems(1) b' by (simp add: Let_def)
    then show ?thesis using b' Some by (simp add: Let_def bc0)
  qed
qed

lemma invoked_quiet:
  assumes "inert beh"
  shows "i < length (invoked beh a ls st) - 1 \<Longrightarrow> a < length (store st) \<Longrightarrow>
     snd (beh (invoked beh a ls st ! i) (length (store st) + i)
            (before_call a (invoked beh a ls st) i st)) = None"
proof (induction ls arbitrary: st i)
  case Nil
  then show ?case by simp
next
  case (Cons l ls)
  let ?c = "length (store st)"
  let ?st1 = "st\<lparr>store := store st @ [clone (store st ! a)],
                 effects := effects st @
                   [ListenerCall (callback l) (thisArg l) [ArgEvent ?c, ArgArguments (args l)]]\<rparr>"
  have b: "beh l ?c ?st1 = (?st1, snd (beh l ?c ?st1))" by (rule inert_eq [OF assms])
  have a1: "a < length (store ?st1)" using Cons.prems by simp
  have s1: "store ?st1 ! a = store st ! a" using Cons.prems by (simp add: nth_append)
  show ?case
  proof (cases "snd (beh l ?c ?st1)")
    case None
    then have b': "beh l ?c ?st1 = (?st1, None)" using b by simp
    let ?inv = "invoked beh a ls ?st1"
    have i: "invoked beh a (l # ls) st = l # ?inv" using b' by (simp add: Let_def)
    have bc: "before_call a (l # ?inv) (Suc k) st = before_call a ?inv k ?st1" for k
      using s1 by (simp add: before_call_def clone_id)
    have bc0: "before_call a (l # ?inv) 0 st = ?st1"
      by (simp add: before_call_def clone_id)
    show ?thesis
    proof (cases i)
      case 0
      then show ?thesis unfolding i using None by (simp add: bc0)
    next
      case (Suc k)
      then have "k < length ?inv - 1" using Cons.prems(1) unfolding i by simp
      from Cons.IH [OF this a1] show ?thesis unfolding i Suc by (simp add: bc)
    qed
  next
    case (Some e')
    then have b': "beh l ?c ?st1 = (?st1, Some e')" using b by simp
    then show ?thesis using Cons.prems(1) by (simp add: Let_def)
  qed
qed

subsection \<open>Reading the outcome of a dispatch\<close>

lemma store_after:
  "length xs \<le> c \<Longrightarrow> c < length xs + Suc n \<Longrightarrow> (xs @ ev # replicate n ev) ! c = ev"
proof -
  assume a: "length xs \<le> c" "c < length xs + Suc n"
  have "(xs @ ev # replicate n ev) ! c = (replicate (Suc n) ev) ! (c - length xs)"
    using a by (simp add: nth_append)
  also have "\<dots> = ev" using a by (intro nth_replicate) simp
  finally show ?thesis .
qed

lemma new_effects_append: "effects st' = effects st @ xs \<Longrightarrow> new_effects st st' = xs"
  by (simp add: new_effects_def)

lemma listener_events_append:
  "listener_events (xs @ ys) = listener_events xs @ listener_events ys"
  by (simp add: listener_events_def deliveries_append)

lemma listener_events_handler_calls:
  "listener_events (map (\<lambda>y. HandlerCall y a e) hs) = []"
  by (simp add: listener_events_def deliveries_handler_calls)


subsection \<open>What a dispatch leaves alone\<close>

lemma callListeners_poll_vars:
  assumes "\<forall>l c s. poll_vars (fst (beh l c s)) = poll_vars s"
  shows "poll_vars (fst (callListeners beh a k n st)) = poll_vars st"
proof (induction n arbitrary: k st)
  case 0
  show ?case by simp
next
  case (Suc n)
  show ?case
  proof (cases "k < length (eventListeners st)")
    case False
    then show ?thesis using Suc.IH by simp
  next
    case True
    let ?l = "eventListeners st ! k"
    let ?c = "length (store st)"
    let ?st1 = "st\<lparr>store := store st @ [clone (store st ! a)],
                   effects := effects st @
                     [ListenerCall (callback ?l) (thisArg ?l)
                        [ArgEvent ?c, ArgArguments (args ?l)]]\<rparr>"
    obtain st2 r where b: "beh ?l ?c ?st1 = (st2, r)" by (cases "beh ?l ?c ?st1")
    have "poll_vars (fst (beh ?l ?c ?st1)) = poll_vars ?st1" using assms by blast
    then have p: "poll_vars st2 = poll_vars st" using b by (simp add: poll_vars_def)
    show ?thesis
    proof (cases r)
      case None
      then show ?thesis using True b p Suc.IH [of "Suc k" st2] by (simp add: Let_def)
    next
      case (Some e)
      then show ?thesis using True b p by (simp add: Let_def)
    qed
  qed
qed

lemma resolved_poll_vars: "poll_vars (resolved x st) = poll_vars st"
  by (simp add: resolved_def poll_vars_def Let_def split: option.splits)

lemma handleServerEvent_poll_vars:
  assumes "\<forall>l c s. poll_vars (fst (beh l c s)) = poll_vars s"
  shows "poll_vars (fst (handleServerEvent beh d st)) = poll_vars st"
  using dispatch_resolved [of beh "Received d" st]
    callListeners_poll_vars [OF assms]
  by (simp add: callEventListeners_def resolved_poll_vars)

lemma handleServerEvents_poll_vars:
  assumes "\<forall>l c s. poll_vars (fst (beh l c s)) = poll_vars s"
  shows "poll_vars (fst (handleServerEvents beh ds st)) = poll_vars st"
proof (induction ds arbitrary: st)
  case Nil
  show ?case by simp
next
  case (Cons d ds)
  obtain st1 r where h: "handleServerEvent beh d st = (st1, r)"
    by (cases "handleServerEvent beh d st")
  have 1: "poll_vars st1 = poll_vars st"
    using handleServerEvent_poll_vars [OF assms, of d st] h by simp
  show ?case
  proof (cases r)
    case None
    then show ?thesis using h 1 Cons.IH [of st1] by simp
  next
    case (Some e)
    then show ?thesis using h 1 by simp
  qed
qed

subsection \<open>The registry stays well-formed\<close>

lemma keys_obj_set: "set (map fst (obj_set r k v)) = insert k (set (map fst r))"
proof (induction r)
  case Nil
  show ?case by simp
next
  case (Cons x r)
  obtain k' v' where x: "x = (k', v')" by (cases x)
  show ?case using Cons.IH by (simp add: x insert_commute)
qed

lemma sorted_obj_set:
  "sorted_wrt (<) (map fst r) \<Longrightarrow> sorted_wrt (<) (map fst (obj_set r k v))"
proof (induction r)
  case Nil
  show ?case by simp
next
  case (Cons x r)
  obtain k' v' where x: "x = (k', v')" by (cases x)
  have s: "sorted_wrt (<) (map fst r)" and b: "\<forall>y \<in> set (map fst r). k' < y"
    using Cons.prems x by auto
  show ?case
  proof (cases "k = k'")
    case True
    then show ?thesis using Cons.prems x by auto
  next
    case False
    show ?thesis
    proof (cases "k < k'")
      case True
      then show ?thesis using Cons.prems x False by auto
    next
      case n: False
      have "\<forall>y \<in> set (map fst (obj_set r k v)). k' < y"
        unfolding keys_obj_set using b n False by auto
      then show ?thesis using x False n Cons.IH [OF s] by auto
    qed
  qed
qed

lemma obj_set_middle:
  "sorted_wrt (<) (map fst (pre @ (h, v) # post)) \<Longrightarrow>
     obj_set (pre @ (h, v) # post) h v' = pre @ (h, v') # post"
  by (induction pre) (auto simp: sorted_wrt_append)

lemma sorted_filter_keys:
  "sorted_wrt (<) (map fst r) \<Longrightarrow> sorted_wrt (<) (map fst (filter P r))"
  by (simp add: sorted_wrt_map sorted_wrt_filter)

lemma sorted_keys_distinct:
  "sorted_wrt (<) (map fst (r :: (nat \<times> 'a) list)) \<Longrightarrow> distinct (map fst r)"
  by (simp add: strict_sorted_iff)

lemma wf_registry_distinct: "wf_registry st \<Longrightarrow> distinct (map fst (expectedEventSpecs st))"
  by (simp add: wf_registry_def sorted_keys_distinct)

lemma wf_initial: "wf_registry initial"
  by (simp add: wf_registry_def initial_def)

lemma list_all_keys_filter:
  "list_all Q (map fst r) \<Longrightarrow> list_all Q (map fst (filter P r))"
  by (induction r) auto

lemma wf_expectEvent: "wf_registry st \<Longrightarrow> wf_registry (snd (expectEvent now ty ps tmo st))"
proof -
  assume w: "wf_registry st"
  let ?h = "expectedEventLastHandle st + 1"
  have "list_all (\<lambda>k. k \<le> ?h) (map fst (expectedEventSpecs st))"
    using w by (auto simp: wf_registry_def list_all_iff)
  then have "\<forall>k \<in> set (map fst (obj_set (expectedEventSpecs st) ?h v)). k \<le> ?h" for v
    unfolding keys_obj_set by (auto simp: list_all_iff)
  then show ?thesis
    using w by (simp add: wf_registry_def expectEvent_def Let_def sorted_obj_set list_all_iff)
qed

lemma wf_unexpectEvent: "wf_registry st \<Longrightarrow> wf_registry (unexpectEvent handle st)"
  by (simp add: wf_registry_def unexpectEvent_def Let_def obj_delete_def sorted_filter_keys
      list_all_keys_filter split: option.splits)

lemma wf_cleanup: "wf_registry st \<Longrightarrow> wf_registry (cleanupExpectedEvents now st)"
  by (simp add: wf_registry_def cleanupExpectedEvents_def sorted_filter_keys
      list_all_keys_filter)

lemma wf_tryMatch:
  "wf_registry st \<Longrightarrow> tryMatchExpectedEvent a st = Inr (h, st') \<Longrightarrow> wf_registry st'"
  by (auto simp: wf_registry_def tryMatchExpectedEvent_def obj_delete_def sorted_filter_keys
      list_all_keys_filter split: sum.splits option.splits)

lemma wf_waitExpectedEvent:
  assumes "wf_registry st" and "waitExpectedEvent ty ps st = Inr (p, st')"
  shows "wf_registry st'"
proof (cases "\<exists>h v. lookupExpectedEventHandle st ty ps = Inr (Some h) \<and>
                      map_of (expectedEventSpecs st) h = Some v")
  case True
  then obtain h v where l: "lookupExpectedEventHandle st ty ps = Inr (Some h)"
    and m: "map_of (expectedEventSpecs st) h = Some v" by blast
  let ?v = "v\<lparr>handlers := handlers v @ [promises st]\<rparr>"
  have st': "st' = st\<lparr>promises := promises st + 1,
                       expectedEventSpecs := obj_set (expectedEventSpecs st) h ?v\<rparr>"
    using assms(2) l m by (simp add: waitExpectedEvent_def)
  have "h \<in> set (map fst (expectedEventSpecs st))"
    using m by (auto dest!: map_of_SomeD simp: image_iff) force
  then have "set (map fst (obj_set (expectedEventSpecs st) h ?v)) =
             set (map fst (expectedEventSpecs st))"
    unfolding keys_obj_set by auto
  then show ?thesis
    using assms(1) unfolding st' wf_registry_def list_all_iff
    by (simp add: sorted_obj_set)
next
  case False
  then have "st' = st"
    using assms(2) by (auto simp: waitExpectedEvent_def split: sum.splits option.splits)
  then show ?thesis using assms(1) by simp
qed

lemma wf_resolved: "wf_registry st \<Longrightarrow> wf_registry (resolved x st)"
  by (simp add: resolved_def Let_def wf_registry_def obj_delete_def sorted_filter_keys
      list_all_keys_filter split: option.splits)

subsection \<open>The trace of a batch\<close>

lemma resolved_effects:
  "effects (resolved x st) =
     effects st @ map (\<lambda>y. HandlerCall y (Some (length (store st))) None) (resolving x st)"
  by (simp add: resolved_def resolving_def Let_def split: option.splits)

lemma resolved_store:
  "store (resolved x st) =
     store st @ [\<lparr>type = event_type x, params = event_params x,
                  expected = (\<exists>(k, e) \<in> set (expectedEventSpecs st).
                                matches (event_type x) (event_params x) e),
                  fake = is_fake x\<rparr>]"
  using resolved_shape [of x st] by auto

lemma resolved_listeners: "eventListeners (resolved x st) = eventListeners st"
  by (simp add: resolved_def Let_def split: option.splits)






lemma wait_then_batch:
  "listeningTime st = t \<Longrightarrow>
     wait_then beh t (Some ds) st =
       fst (handleServerEvents beh ds
              (st\<lparr>syncListenError := None, listenErrorCount := 0,
                  effects := effects st @ AsapWait #
                    map (\<lambda>c. SyncCall c None) (syncListenCallbacks st)\<rparr>))"
  by (cases ds) (simp_all add: wait_then_def Let_def)

subsection \<open>Cancelling an expectation\<close>

text \<open>
  Claim C8. \<^verbatim>\<open>unexpectEvent(handle)\<close> on a pending handle calls each handler of that
  entry once, in order, with \<^verbatim>\<open>(null, Error('Event no longer expected'))\<close>, an error
  that differs from the one of a timeout, and removes the entry, all other entries and all
  other state staying as they are. On a handle that is not in the registry it returns the
  state unchanged. After the call the handle is not in the registry, so a second call is
  such a no-op: calling twice is calling once.
\<close>

theorem unexpectEvent_cancels:
  "(case map_of (expectedEventSpecs st) handle of
      Some eventSpec \<Rightarrow>
        unexpectEvent handle st =
          st\<lparr>expectedEventSpecs := filter (\<lambda>(k, e). k \<noteq> handle) (expectedEventSpecs st),
             effects := effects st @ notify (Error ''Event no longer expected'') eventSpec\<rparr>
    | None \<Rightarrow> unexpectEvent handle st = st) \<and>
   map_of (expectedEventSpecs (unexpectEvent handle st)) handle = None \<and>
   unexpectEvent handle (unexpectEvent handle st) = unexpectEvent handle st \<and>
   Error ''Event no longer expected'' \<noteq> Error ''Timeout waiting for expected event''"
proof -
  have 1: "map_of (expectedEventSpecs (unexpectEvent handle st)) handle = None"
    by (simp add: unexpectEvent_def Let_def map_of_obj_delete split: option.splits)
  have 2: "unexpectEvent handle (unexpectEvent handle st) = unexpectEvent handle st"
    using 1 by (rule unexpectEvent_absent)
  have 3: "(case map_of (expectedEventSpecs st) handle of
      Some eventSpec \<Rightarrow>
        unexpectEvent handle st =
          st\<lparr>expectedEventSpecs := filter (\<lambda>(k, e). k \<noteq> handle) (expectedEventSpecs st),
             effects := effects st @ notify (Error ''Event no longer expected'') eventSpec\<rparr>
    | None \<Rightarrow> unexpectEvent handle st = st)"
    by (simp add: unexpectEvent_absent split: option.splits)
       (simp add: unexpectEvent_def obj_delete_def notify_def)
  show ?thesis using 1 2 3 by simp
qed

subsection \<open>The periodic sweep\<close>

text \<open>
  Claim C2. \<^verbatim>\<open>init\<close> runs the sweep every 1000 ms. A sweep at time \<open>now\<close> removes exactly
  the entries whose age \<open>now - added\<close> exceeds their timeout and keeps the others as they
  are; the handlers of each removed entry are called once, in order, with
  \<^verbatim>\<open>(null, Error('Timeout waiting for expected event'))\<close>, an error that differs from the
  one of a cancellation. A later sweep at time \<open>now'\<close> calls only handlers of entries that
  had not expired at \<open>now\<close>, so no entry is timed out twice. An entry resolved before the
  sweep, by \<^verbatim>\<open>unexpectEvent\<close> or by a matching event, is not expired by it: the sweep after
  the resolution of \<open>handle\<close> calls only handlers of other entries.
\<close>

theorem sweep_expires:
  "expectedEventSpecs (cleanupExpectedEvents now st) =
     filter (\<lambda>(h, e). \<not> now - added e > timeout e) (expectedEventSpecs st) \<and>
   effects (cleanupExpectedEvents now st) =
     effects st @ concat (map (\<lambda>(h, e). notify (Error ''Timeout waiting for expected event'') e)
                            (filter (\<lambda>(h, e). now - added e > timeout e) (expectedEventSpecs st))) \<and>
   effects (cleanupExpectedEvents now' (cleanupExpectedEvents now st)) =
     effects (cleanupExpectedEvents now st) @
     concat (map (\<lambda>(h, e). notify (Error ''Timeout waiting for expected event'') e)
               (filter (\<lambda>(h, e). \<not> now - added e > timeout e \<and> now' - added e > timeout e)
                       (expectedEventSpecs st))) \<and>
   effects (cleanupExpectedEvents now (unexpectEvent handle st)) =
     effects (unexpectEvent handle st) @
     concat (map (\<lambda>(h, e). notify (Error ''Timeout waiting for expected event'') e)
               (filter (\<lambda>(h, e). h \<noteq> handle \<and> now - added e > timeout e) (expectedEventSpecs st))) \<and>
   (\<forall>a st'. tryMatchExpectedEvent a st = Inr (Some handle, st') \<longrightarrow>
      effects (cleanupExpectedEvents now st') =
        effects st' @
        concat (map (\<lambda>(h, e). notify (Error ''Timeout waiting for expected event'') e)
                  (filter (\<lambda>(h, e). h \<noteq> handle \<and> now - added e > timeout e) (expectedEventSpecs st)))) \<and>
   Error ''Timeout waiting for expected event'' \<noteq> Error ''Event no longer expected'' \<and>
   effects (init st) = effects st @ [SetIntervalCleanup 1000]"
proof -
  have u: "expectedEventSpecs (unexpectEvent handle st) =
             filter (\<lambda>(k, e). k \<noteq> handle) (expectedEventSpecs st)"
    by (simp add: unexpectEvent_def obj_delete_def Let_def split: option.splits)
  have c: "\<And>P Q xs. filter P (filter Q xs) = filter (\<lambda>x. Q x \<and> P x) (xs :: (nat \<times> eventSpec) list)"
    by simp
  show ?thesis
    unfolding cleanup_effects cleanup_registry u
    by (auto simp: expired_def init_def case_prod_unfold dest!: tryMatch_registry)
qed

text \<open>
  In the example, entry 1 (added at 0, timeout 5000) is matched by the event; the sweep at
  time 6000 calls no handler, the log still holds the one call made by the match.
\<close>

theorem sweep_expires_witness:
  "tryMatchExpectedEvent 0 st_event = Inr (Some 1, st_matched) \<and>
   effects (cleanupExpectedEvents 6000 st_matched) = [HandlerCall 0 (Some 0) None]"
proof -
  have "\<forall>a st'. tryMatchExpectedEvent a st_event = Inr (Some 1, st') \<longrightarrow>
      effects (cleanupExpectedEvents 6000 st') =
        effects st' @
        concat (map (\<lambda>(h, e). notify (Error ''Timeout waiting for expected event'') e)
                  (filter (\<lambda>(h, e). h \<noteq> 1 \<and> 6000 - added e > timeout e)
                          (expectedEventSpecs st_event)))"
    using sweep_expires [of 6000 st_event 7000 1] by blast
  then have "effects (cleanupExpectedEvents 6000 st_matched) =
        effects st_matched @
        concat (map (\<lambda>(h, e). notify (Error ''Timeout waiting for expected event'') e)
                  (filter (\<lambda>(h, e). h \<noteq> 1 \<and> 6000 - added e > timeout e)
                          (expectedEventSpecs st_event)))"
    using st_event_match by blast
  moreover have "effects st_matched = [HandlerCall 0 (Some 0) None]"
    by (simp add: st_matched_eq)
  ultimately show ?thesis
    using st_event_match by (simp add: st_event_eq st_example_eq)
qed

subsection \<open>Responses of a superseded generation\<close>

text \<open>
  Claim C3. A listen response, success or failure, whose generation stamp recorded at
  request time differs from the current \<^verbatim>\<open>listeningTime\<close> is discarded: the whole module
  state stays as it is, so the registry, the error counter and the recorded error are
  unchanged, and the effects log gets no entry: no handler, listener or sync callback is
  called and no next poll cycle is scheduled.
\<close>

theorem stale_response_discarded:
  "listeningTime st \<noteq> requestListeningTime \<Longrightarrow>
     wait_then beh requestListeningTime result st = st \<and>
     wait_catch SERVER_RETRY_INTERVAL requestListeningTime error st = st"
  by (simp add: wait_then_def wait_catch_def)

text \<open>
  The response to the request issued at time 1000 arrives after the session was stopped
  and started again at time 2000.
\<close>

theorem stale_response_discarded_witness:
  "listeningTime st_restarted \<noteq> Some 1000 \<and>
   wait_then quiet (Some 1000)
     (Some [\<lparr>data_type = ''x'', data_params = None\<rparr>]) st_restarted = st_restarted \<and>
   wait_catch 10 (Some 1000) (Error ''timeout'') st_restarted = st_restarted"
proof -
  have h: "listeningTime st_restarted \<noteq> Some 1000"
    by (simp add: st_restarted_def startListening_def stopListening_def wait_def
        addSyncListenCallback_def addEventListener_def expectEvent_def initial_def
        truthy_str_def Let_def)
  show ?thesis
    using h stale_response_discarded [OF h] by simp
qed

subsection \<open>Reconnect delay\<close>

lemma wait_then_fresh:
  assumes "\<forall>l c s. poll_vars (fst (beh l c s)) = poll_vars s"
    and "listeningTime st = t"
  shows "listenErrorCount (wait_then beh t result st) = 0"
    and "listeningTime (wait_then beh t result st) = t"
    and "ignoreListenErrors (wait_then beh t result st) = ignoreListenErrors st"
    and "syncListenCallbacks (wait_then beh t result st) = syncListenCallbacks st"
proof -
  let ?st2 = "st\<lparr>syncListenError := None, listenErrorCount := 0,
                 effects := effects st @ AsapWait #
                   map (\<lambda>c. SyncCall c None) (syncListenCallbacks st)\<rparr>"
  have "wait_then beh t result st = ?st2 \<or>
        (\<exists>events. wait_then beh t result st = fst (handleServerEvents beh events ?st2))"
    using assms(2) by (auto simp: wait_then_def Let_def split: option.splits)
  then have sp: "poll_vars (wait_then beh t result st) = poll_vars ?st2"
    using handleServerEvents_poll_vars [OF assms(1), of _ ?st2] by auto
  show "listenErrorCount (wait_then beh t result st) = 0"
    and "listeningTime (wait_then beh t result st) = t"
    and "ignoreListenErrors (wait_then beh t result st) = ignoreListenErrors st"
    and "syncListenCallbacks (wait_then beh t result st) = syncListenCallbacks st"
    using sp assms(2) by (simp_all add: poll_vars_def)
qed

lemma wait_catch_fresh:
  assumes "listeningTime st = t" and "\<not> ignoreListenErrors st"
  shows "wait_catch R t e st =
     st\<lparr>syncListenError := Some e,
        listenErrorCount := listenErrorCount st + 1,
        effects := effects st @
          map (\<lambda>c. SyncCall c (Some (if listenErrorCount st + 1 \<le> 2 then 1 else R)))
              (syncListenCallbacks st) @
          [SetTimeoutWait ((if listenErrorCount st + 1 \<le> 2 then 1 else R) * 1000)]\<rparr>"
  using assms by (simp add: wait_catch_def Let_def FAST_RECONNECT_LISTEN_ERRORS_def)

lemma failures_run:
  assumes "listeningTime st = t" and "\<not> ignoreListenErrors st"
  shows "listeningTime (failures R t errs st) = t \<and>
         \<not> ignoreListenErrors (failures R t errs st) \<and>
         syncListenCallbacks (failures R t errs st) = syncListenCallbacks st \<and>
         listenErrorCount (failures R t errs st) = listenErrorCount st + length errs"
  using assms
proof (induction errs arbitrary: st)
  case Nil
  then show ?case by simp
next
  case (Cons e errs)
  have "listeningTime (wait_catch R t e st) = t" "\<not> ignoreListenErrors (wait_catch R t e st)"
    using Cons.prems by (simp_all add: wait_catch_fresh)
  from Cons.IH [OF this] show ?case
    using Cons.prems by (simp add: wait_catch_fresh)
qed

text \<open>
  Claim C9. Error suppression is off and the responses belong to the current generation.
  A successful response resets the counter of consecutive failures to zero, before it
  handles its events; and a failure in a state where the counter is \<open>k - 1\<close> counts itself
  as number \<open>k\<close>, reports to every sync callback the delay \<open>d\<close> and schedules the next
  \<^verbatim>\<open>wait\<close> after \<open>d\<close> seconds, where \<open>d\<close> is 1 for \<open>k\<close> up to 2 and the retry interval \<open>R\<close>
  (\<^verbatim>\<open>SERVER_RETRY_INTERVAL\<close>) from 3 on. Both hold whatever the listeners do. For a run:
  the listeners called for the events of the successful response keep the variables of
  the poll loop, that is, while they run they do not stop or restart the session, switch
  error suppression or register a sync callback, so that the run stays one of the current
  generation with suppression off. Then the counter is zero after the successful
  response. After it, let \<open>errs\<close> be the failures so far of the run and \<open>e\<close> the next one,
  which is failure number \<open>length errs + 1\<close>: it counts itself, reports to every sync
  callback the delay \<open>d\<close> and schedules the next \<^verbatim>\<open>wait\<close> after \<open>d\<close> seconds, where \<open>d\<close> is 1
  for failure number 1 and 2 and \<open>R\<close> from the third on.
\<close>

theorem reconnect_delay:
  assumes "listeningTime st0 = t" and "\<not> ignoreListenErrors st0"
  shows "(\<exists>ds. wait_then beh t result st0 =
            fst (handleServerEvents beh ds
                   (st0\<lparr>syncListenError := None, listenErrorCount := 0,
                       effects := effects st0 @ AsapWait #
                         map (\<lambda>c. SyncCall c None) (syncListenCallbacks st0)\<rparr>))) \<and>
         (\<forall>s. listeningTime s = t \<and> \<not> ignoreListenErrors s \<longrightarrow>
            (let k = listenErrorCount s + 1;
                 d = (if k \<le> 2 then 1 else R)
             in listenErrorCount (wait_catch R t e s) = k \<and>
                effects (wait_catch R t e s) =
                  effects s @ map (\<lambda>c. SyncCall c (Some d)) (syncListenCallbacks s) @
                  [SetTimeoutWait (d * 1000)])) \<and>
         ((\<forall>l c s. poll_vars (fst (beh l c s)) = poll_vars s) \<longrightarrow>
            (let st = failures R t errs (wait_then beh t result st0);
                 d = (if length errs + 1 \<le> 2 then 1 else R)
             in listenErrorCount (wait_then beh t result st0) = 0 \<and>
                listenErrorCount (wait_catch R t e st) = length errs + 1 \<and>
                effects (wait_catch R t e st) =
                  effects st @ map (\<lambda>c. SyncCall c (Some d)) (syncListenCallbacks st0) @
                  [SetTimeoutWait (d * 1000)]))"
proof -
  let ?s2 = "st0\<lparr>syncListenError := None, listenErrorCount := 0,
                 effects := effects st0 @ AsapWait #
                   map (\<lambda>c. SyncCall c None) (syncListenCallbacks st0)\<rparr>"
  have 1: "\<exists>ds. wait_then beh t result st0 = fst (handleServerEvents beh ds ?s2)"
  proof (cases result)
    case None
    have "wait_then beh t result st0 = fst (handleServerEvents beh [] ?s2)"
      using assms(1) None by (simp add: wait_then_def Let_def)
    then show ?thesis ..
  next
    case (Some ds)
    have "wait_then beh t result st0 = fst (handleServerEvents beh ds ?s2)"
      unfolding Some using assms(1) by (rule wait_then_batch)
    then show ?thesis ..
  qed
  have 2: "\<forall>s. listeningTime s = t \<and> \<not> ignoreListenErrors s \<longrightarrow>
            (let k = listenErrorCount s + 1;
                 d = (if k \<le> 2 then 1 else R)
             in listenErrorCount (wait_catch R t e s) = k \<and>
                effects (wait_catch R t e s) =
                  effects s @ map (\<lambda>c. SyncCall c (Some d)) (syncListenCallbacks s) @
                  [SetTimeoutWait (d * 1000)])"
    by (simp add: wait_catch_fresh Let_def)
  have 3: "(\<forall>l c s. poll_vars (fst (beh l c s)) = poll_vars s) \<longrightarrow>
            (let st = failures R t errs (wait_then beh t result st0);
                 d = (if length errs + 1 \<le> 2 then 1 else R)
             in listenErrorCount (wait_then beh t result st0) = 0 \<and>
                listenErrorCount (wait_catch R t e st) = length errs + 1 \<and>
                effects (wait_catch R t e st) =
                  effects st @ map (\<lambda>c. SyncCall c (Some d)) (syncListenCallbacks st0) @
                  [SetTimeoutWait (d * 1000)])"
  proof
    assume r: "\<forall>l c s. poll_vars (fst (beh l c s)) = poll_vars s"
    let ?s = "wait_then beh t result st0"
    let ?st = "failures R t errs ?s"
    have a: "listenErrorCount ?s = 0" "listeningTime ?s = t" "\<not> ignoreListenErrors ?s"
      "syncListenCallbacks ?s = syncListenCallbacks st0"
      using assms(1,2) by (simp_all add: wait_then_fresh [OF r])
    have b: "listeningTime ?st = t" "\<not> ignoreListenErrors ?st"
      "syncListenCallbacks ?st = syncListenCallbacks st0" "listenErrorCount ?st = length errs"
      using failures_run [OF a(2) a(3), of R errs] a(1) a(4) by simp_all
    show "let st = failures R t errs (wait_then beh t result st0);
                 d = (if length errs + 1 \<le> 2 then 1 else R)
             in listenErrorCount (wait_then beh t result st0) = 0 \<and>
                listenErrorCount (wait_catch R t e st) = length errs + 1 \<and>
                effects (wait_catch R t e st) =
                  effects st @ map (\<lambda>c. SyncCall c (Some d)) (syncListenCallbacks st0) @
                  [SetTimeoutWait (d * 1000)]"
      using a(1) b by (simp add: Let_def wait_catch_fresh [OF b(1) b(2)])
  qed
  show ?thesis by (intro conjI) (fact 1 2 3)+
qed

text \<open>
  With a retry interval of 5 seconds: the second failure after a keep-alive response is
  retried after 1 second, the third after 5 seconds.
\<close>

theorem reconnect_delay_witness:
  "listeningTime st_restarted = Some 2000 \<and> \<not> ignoreListenErrors st_restarted \<and>
   (\<forall>l c s. poll_vars (fst (quiet l c s)) = poll_vars s) \<and>
   effects (wait_catch 5 (Some 2000) (Error ''e2'')
      (failures 5 (Some 2000) [Error ''e1''] (wait_then quiet (Some 2000) None st_restarted))) =
     effects (failures 5 (Some 2000) [Error ''e1'']
                (wait_then quiet (Some 2000) None st_restarted)) @
     [SyncCall 7 (Some 1), SetTimeoutWait 1000] \<and>
   effects (wait_catch 5 (Some 2000) (Error ''e3'')
      (failures 5 (Some 2000) [Error ''e1'', Error ''e2'']
         (wait_then quiet (Some 2000) None st_restarted))) =
     effects (failures 5 (Some 2000) [Error ''e1'', Error ''e2'']
                (wait_then quiet (Some 2000) None st_restarted)) @
     [SyncCall 7 (Some 5), SetTimeoutWait 5000]"
proof -
  have r: "st_restarted =
     \<lparr>eventListeners = [\<lparr>callback = 3, thisArg = VUndefined, args = [VObj 3]\<rparr>],
      expectedEventSpecs =
        [(1, \<lparr>spec_type = Some ''x'', spec_params = None, added = 900,
              timeout = 60000, handlers = []\<rparr>)],
      expectedEventLastHandle = 1, sessionId = Some ''qtoggleserverui-ab'',
      listeningTime = Some 2000, listenErrorCount = 0,
      ignoreListenErrors = False, syncListenError = None,
      syncListenCallbacks = [7], store = [], promises = 0,
      effects = [ApiCall ''qtoggleserverui-ab'' 1 11, ApiCall ''qtoggleserverui-ab'' 1 11]\<rparr>"
    by (simp add: st_restarted_def startListening_def stopListening_def wait_def
        addSyncListenCallback_def addEventListener_def expectEvent_def initial_def
        truthy_str_def Let_def DEFAULT_EXPECT_TIMEOUT_def)
  have h1: "listeningTime st_restarted = Some 2000" by (simp add: r)
  have h2: "\<not> ignoreListenErrors st_restarted" by (simp add: r)
  have cb: "syncListenCallbacks st_restarted = [7]" by (simp add: r)
  have h3: "\<forall>l c s. poll_vars (fst (quiet l c s)) = poll_vars s" by (simp add: quiet_def)
  show ?thesis
    using h1 h2 h3
      reconnect_delay [where ?st0.0 = st_restarted and t = "Some 2000" and beh = quiet
        and result = None and R = 5 and errs = "[Error ''e1'']" and e = "Error ''e2''",
        OF h1 h2]
      reconnect_delay [where ?st0.0 = st_restarted and t = "Some 2000" and beh = quiet
        and result = None and R = 5 and errs = "[Error ''e1'', Error ''e2'']"
        and e = "Error ''e3''", OF h1 h2]
    by (simp add: Let_def cb del: failures.simps)
qed

subsection \<open>Resolution of the first matching expectation\<close>



subsection \<open>Locally synthesized events\<close>



subsection \<open>Records without params\<close>

text \<open>
  Claim C10. For a record of a listen response whose params are absent or \<^verbatim>\<open>null\<close>,
  \<^verbatim>\<open>handleServerEvent\<close> constructs the event with the empty params object: this is the
  event in the state in which the fan-out to the listeners, whatever they do, starts. The
  lookup of a matching expectation for it returns normally, it raises no TypeError. An
  entry whose params are \<^verbatim>\<open>null\<close> or empty and whose type is unset or equal to the event's
  matches the event, and when the registry has such an entry the event is marked expected.
  When the listeners are inert, the same is read after the call has returned, and the
  clones handed to the listeners have the empty params object as well.
\<close>

theorem absent_params_empty:
  assumes "data_params d = None"
  shows "let st' = fst (handleServerEvent beh d st);
             a = length (store st);
             s1 = resolved (Received d) st
         in
     handleServerEvent beh d st = callEventListeners beh a s1 \<and>
     params (store s1 ! a) = [] \<and>
     (\<exists>h. lookupExpectedEventHandle st (data_type d) (Some (params (store s1 ! a))) = Inr h) \<and>
     (\<forall>e. (spec_params e = None \<or> spec_params e = Some []) \<and>
          (\<not> truthy_str (spec_type e) \<or> spec_type e = Some (data_type d)) \<longrightarrow>
          specMatches (data_type d) (Some (params (store s1 ! a))) e = Inr True) \<and>
     ((\<exists>(k, e) \<in> set (expectedEventSpecs st).
          (spec_params e = None \<or> spec_params e = Some []) \<and>
          (\<not> truthy_str (spec_type e) \<or> spec_type e = Some (data_type d))) \<longrightarrow>
        expected (store s1 ! a)) \<and>
     (inert beh \<longrightarrow>
        params (store st' ! a) = [] \<and>
        (\<forall>c \<in> set (listener_events (new_effects st st')). params (store st' ! c) = []) \<and>
        (\<exists>h. lookupExpectedEventHandle st (data_type d) (Some (params (store st' ! a))) = Inr h) \<and>
        (\<forall>e. (spec_params e = None \<or> spec_params e = Some []) \<and>
             (\<not> truthy_str (spec_type e) \<or> spec_type e = Some (data_type d)) \<longrightarrow>
             specMatches (data_type d) (Some (params (store st' ! a))) e = Inr True) \<and>
        ((\<exists>(k, e) \<in> set (expectedEventSpecs st).
             (spec_params e = None \<or> spec_params e = Some []) \<and>
             (\<not> truthy_str (spec_type e) \<or> spec_type e = Some (data_type d))) \<longrightarrow>
           expected (store st' ! a)))"
proof -
  let ?x = "Received d"
  let ?st' = "fst (handleServerEvent beh d st)"
  let ?a = "length (store st)"
  let ?s1 = "resolved ?x st"
  let ?M = "\<exists>(k, e) \<in> set (expectedEventSpecs st). matches (data_type d) [] e"
  let ?ev = "\<lparr>type = data_type d, params = [], expected = ?M, fake = False\<rparr>"
  have p: "event_params ?x = []" using assms by simp
  have 0: "handleServerEvent beh d st = callEventListeners beh ?a ?s1"
    using dispatch_resolved [of beh ?x st] by simp
  have s1: "store ?s1 ! ?a = ?ev"
    using resolved_store [of ?x st] p by simp
  have 3: "\<exists>h. lookupExpectedEventHandle st (data_type d) (Some []) = Inr h"
  proof (cases ?M)
    case True
    from lookup_some [OF True] show ?thesis by blast
  next
    case False
    then have "\<forall>(k, e) \<in> set (expectedEventSpecs st). \<not> matches (data_type d) [] e" by auto
    from lookup_none [OF this] show ?thesis by blast
  qed
  have 4: "\<And>e. (spec_params e = None \<or> spec_params e = Some []) \<and>
          (\<not> truthy_str (spec_type e) \<or> spec_type e = Some (data_type d)) \<Longrightarrow>
          matches (data_type d) [] e"
    by (auto simp: matches_def)
  have 5: "(\<exists>(k, e) \<in> set (expectedEventSpecs st).
          (spec_params e = None \<or> spec_params e = Some []) \<and>
          (\<not> truthy_str (spec_type e) \<or> spec_type e = Some (data_type d))) \<Longrightarrow> ?M"
    using 4 by fastforce
  have g: "params (store ?s1 ! ?a) = [] \<and>
     (\<exists>h. lookupExpectedEventHandle st (data_type d) (Some (params (store ?s1 ! ?a))) = Inr h) \<and>
     (\<forall>e. (spec_params e = None \<or> spec_params e = Some []) \<and>
          (\<not> truthy_str (spec_type e) \<or> spec_type e = Some (data_type d)) \<longrightarrow>
          specMatches (data_type d) (Some (params (store ?s1 ! ?a))) e = Inr True) \<and>
     ((\<exists>(k, e) \<in> set (expectedEventSpecs st).
          (spec_params e = None \<or> spec_params e = Some []) \<and>
          (\<not> truthy_str (spec_type e) \<or> spec_type e = Some (data_type d))) \<longrightarrow>
        expected (store ?s1 ! ?a))"
    unfolding s1 using 3 4 5 by (simp add: specMatches_matches)
  have i: "inert beh \<longrightarrow>
        params (store ?st' ! ?a) = [] \<and>
        (\<forall>c \<in> set (listener_events (new_effects st ?st')). params (store ?st' ! c) = []) \<and>
        (\<exists>h. lookupExpectedEventHandle st (data_type d)
                (Some (params (store ?st' ! ?a))) = Inr h) \<and>
        (\<forall>e. (spec_params e = None \<or> spec_params e = Some []) \<and>
             (\<not> truthy_str (spec_type e) \<or> spec_type e = Some (data_type d)) \<longrightarrow>
             specMatches (data_type d) (Some (params (store ?st' ! ?a))) e = Inr True) \<and>
        ((\<exists>(k, e) \<in> set (expectedEventSpecs st).
             (spec_params e = None \<or> spec_params e = Some []) \<and>
             (\<not> truthy_str (spec_type e) \<or> spec_type e = Some (data_type d))) \<longrightarrow>
           expected (store ?st' ! ?a))"
  proof
    assume ib: "inert beh"
    define hs where "hs = map (\<lambda>y. HandlerCall y (Some ?a) None) (resolving ?x st)"
    let ?inv = "invoked beh ?a (eventListeners st) ?s1"
    have eq: "handleServerEvent beh d st = fanout beh ?a ?s1"
      using dispatch_inert [OF ib, of ?x st] by simp
    have rs: "store ?s1 = store st @ [?ev]"
      using resolved_store [of ?x st] p by simp
    have s: "store ?st' = store st @ ?ev # replicate (length ?inv) ?ev"
      unfolding eq by (simp add: fanout_def Let_def rs resolved_listeners)
    have e: "effects ?st' = effects st @ hs @ listener_calls (Suc ?a) ?inv"
      unfolding eq
      by (simp add: fanout_def Let_def rs resolved_listeners resolved_effects hs_def)
    have ne: "new_effects st ?st' = hs @ listener_calls (Suc ?a) ?inv"
      using e by (rule new_effects_append)
    have 1: "store ?st' ! ?a = ?ev" unfolding s by simp
    have 2: "\<forall>c \<in> set (listener_events (new_effects st ?st')). store ?st' ! c = ?ev"
      unfolding ne s hs_def
      by (auto simp: listener_events_append listener_events_handler_calls
          listener_events_listener_calls intro!: store_after)
    show "params (store ?st' ! ?a) = [] \<and>
        (\<forall>c \<in> set (listener_events (new_effects st ?st')). params (store ?st' ! c) = []) \<and>
        (\<exists>h. lookupExpectedEventHandle st (data_type d)
                (Some (params (store ?st' ! ?a))) = Inr h) \<and>
        (\<forall>e. (spec_params e = None \<or> spec_params e = Some []) \<and>
             (\<not> truthy_str (spec_type e) \<or> spec_type e = Some (data_type d)) \<longrightarrow>
             specMatches (data_type d) (Some (params (store ?st' ! ?a))) e = Inr True) \<and>
        ((\<exists>(k, e) \<in> set (expectedEventSpecs st).
             (spec_params e = None \<or> spec_params e = Some []) \<and>
             (\<not> truthy_str (spec_type e) \<or> spec_type e = Some (data_type d))) \<longrightarrow>
           expected (store ?st' ! ?a))"
      using 1 2 3 4 5 by (simp add: specMatches_matches)
  qed
  show ?thesis
    unfolding Let_def using 0 g i by blast
qed

text \<open>In the example, entry 2 has no params and expects \<^verbatim>\<open>port-update\<close> events.\<close>

theorem absent_params_empty_witness:
  "data_params port_update_bare = None \<and> inert quiet \<and>
   (\<exists>(k, e) \<in> set (expectedEventSpecs st_example).
          (spec_params e = None \<or> spec_params e = Some []) \<and>
          (\<not> truthy_str (spec_type e) \<or> spec_type e = Some (data_type port_update_bare))) \<and>
   (let st' = fst (handleServerEvent quiet port_update_bare st_example);
        a = length (store st_example);
        s1 = resolved (Received port_update_bare) st_example in
     handleServerEvent quiet port_update_bare st_example = callEventListeners quiet a s1 \<and>
     params (store s1 ! a) = [] \<and>
     (\<exists>h. lookupExpectedEventHandle st_example (data_type port_update_bare)
             (Some (params (store s1 ! a))) = Inr h) \<and>
     expected (store s1 ! a) \<and>
     params (store st' ! a) = [] \<and>
     (\<forall>c \<in> set (listener_events (new_effects st_example st')). params (store st' ! c) = []) \<and>
     (\<exists>h. lookupExpectedEventHandle st_example (data_type port_update_bare)
             (Some (params (store st' ! a))) = Inr h) \<and>
     (\<forall>e. (spec_params e = None \<or> spec_params e = Some []) \<and>
          (\<not> truthy_str (spec_type e) \<or> spec_type e = Some (data_type port_update_bare)) \<longrightarrow>
          specMatches (data_type port_update_bare) (Some (params (store st' ! a))) e = Inr True) \<and>
     expected (store st' ! a))"
proof -
  have h: "data_params port_update_bare = None" by (simp add: port_update_bare_def)
  have i: "inert quiet" by (simp add: inert_def quiet_def)
  have m: "\<exists>(k, e) \<in> set (expectedEventSpecs st_example).
          (spec_params e = None \<or> spec_params e = Some []) \<and>
          (\<not> truthy_str (spec_type e) \<or> spec_type e = Some (data_type port_update_bare))"
    by (simp add: st_example_eq port_update_bare_def)
  show ?thesis
    using h i m absent_params_empty [OF h, of quiet st_example] unfolding Let_def by blast
qed

subsection \<open>Dispatch to the listeners\<close>

text \<open>
  Claim C5, as stated, fails: the first of two listeners throws, the dispatch ends with
  that exception and the second listener is not called.
\<close>

theorem throwing_listener_counterexample:
  "map callback (eventListeners st_event) = [3, 4] \<and>
   snd (callEventListeners throwing3 0 st_event) = Some (Error ''boom'') \<and>
   map fst (deliveries (effects (fst (callEventListeners throwing3 0 st_event)))) = [3]"
  by (simp add: st_event_eq st_example_eq callEventListeners_def throwing3_def Let_def)

text \<open>
  Nor is every listener called when none throws: the loop runs over the array of listeners
  itself. The first of two listeners removes itself while it is called; the second moves
  to its place, the loop goes on at the next index and returns without calling it.
\<close>

lemma removing_listener_skips_next:
  "map callback (eventListeners st_event) = [3, 4] \<and>
   snd (callEventListeners removing3 0 st_event) = None \<and>
   map fst (deliveries (effects (fst (callEventListeners removing3 0 st_event)))) = [3] \<and>
   map callback (eventListeners (fst (callEventListeners removing3 0 st_event))) = [4]"
  by (simp add: st_event_eq st_example_eq callEventListeners_def removing3_def
      removeEventListener_def Let_def)

text \<open>
  Claim C5, amended. No listener removes a listener while the dispatch runs; listeners may
  add listeners, which this dispatch does not call. Then the dispatch is the loop over
  the listeners \<open>L\<close> registered when it starts, in registration order: each is called with
  its \<^verbatim>\<open>thisArg\<close> and, as first argument, a clone of the event made for this call, until
  one throws. The listeners called are a prefix \<open>inv\<close> of \<open>L\<close>. If the dispatch returns
  normally, all of \<open>L\<close> were called; otherwise it ends with the exception of the loop. When
  moreover the listeners are inert, the outcome is explicit: the log gets the calls of
  \<open>inv\<close> in order, each clone is a new object (the addresses \<open>c, c + 1, \<dots>\<close> are new and
  differ from each other) with the content of the event, the objects that existed keep
  their content, an exception \<open>e\<close> that ends the dispatch was thrown by the last listener
  called, all listeners before it returned normally, and the listeners after it are not
  called.
\<close>

theorem listeners_until_throw:
  assumes "\<forall>l c s. prefix (eventListeners s) (eventListeners (fst (beh l c s)))"
  shows "let L = eventListeners st;
             st' = fst (callEventListeners beh a st);
             r = snd (callEventListeners beh a st);
             c = length (store st);
             inv = invoked beh a L st
         in callEventListeners beh a st = callEach beh a L st \<and>
            r = thrown beh a L st \<and>
            prefix inv L \<and>
            (r = None \<longrightarrow> inv = L) \<and>
            (inert beh \<and> a < length (store st) \<longrightarrow>
               new_effects st st' = listener_calls c inv \<and>
               deliveries (new_effects st st') =
                 map (\<lambda>(l, i). (callback l, thisArg l, i)) (zip inv [c..<c + length inv]) \<and>
               length (store st') = c + length inv \<and>
               (\<forall>i < c + length inv.
                  store st' ! i = (if i < c then store st ! i else store st ! a)) \<and>
               (\<forall>e. r = Some e \<longrightarrow>
                  inv \<noteq> [] \<and>
                  snd (beh (last inv) (c + (length inv - 1))
                         (before_call a inv (length inv - 1) st)) = Some e) \<and>
               (\<forall>i < length inv - 1.
                  snd (beh (inv ! i) (c + i) (before_call a inv i st)) = None))"
proof -
  let ?L = "eventListeners st"
  let ?c = "length (store st)"
  let ?ev = "store st ! a"
  let ?inv = "invoked beh a ?L st"
  let ?st' = "fst (callEventListeners beh a st)"
  let ?r = "snd (callEventListeners beh a st)"
  have 1: "callEventListeners beh a st = callEach beh a ?L st"
    by (rule callEventListeners_callEach [OF assms])
  have 2: "?r = thrown beh a ?L st" unfolding 1 by (rule snd_callEach)
  have 3: "prefix ?inv ?L" by (rule invoked_prefix)
  have 4: "?r = None \<longrightarrow> ?inv = ?L" unfolding 2 by (simp add: thrown_None)
  have 5: "inert beh \<and> a < length (store st) \<longrightarrow>
      new_effects st ?st' = listener_calls ?c ?inv \<and>
      deliveries (new_effects st ?st') =
        map (\<lambda>(l, i). (callback l, thisArg l, i)) (zip ?inv [?c..<?c + length ?inv]) \<and>
      length (store ?st') = ?c + length ?inv \<and>
      (\<forall>i < ?c + length ?inv. store ?st' ! i = (if i < ?c then store st ! i else ?ev)) \<and>
      (\<forall>e. ?r = Some e \<longrightarrow>
         ?inv \<noteq> [] \<and>
         snd (beh (last ?inv) (?c + (length ?inv - 1))
                (before_call a ?inv (length ?inv - 1) st)) = Some e) \<and>
      (\<forall>i < length ?inv - 1. snd (beh (?inv ! i) (?c + i) (before_call a ?inv i st)) = None)"
  proof
    assume h: "inert beh \<and> a < length (store st)"
    then have ib: "inert beh" and al: "a < length (store st)" by simp_all
    have eq: "callEventListeners beh a st =
       (st\<lparr>store := store st @ replicate (length ?inv) ?ev,
           effects := effects st @ listener_calls ?c ?inv\<rparr>,
        thrown beh a ?L st)"
      using callEventListeners_inert [OF ib al] by (simp add: fanout_def Let_def)
    have a0: "new_effects st ?st' = listener_calls ?c ?inv"
      by (simp add: eq new_effects_def)
    have a1: "deliveries (new_effects st ?st') =
        map (\<lambda>(l, i). (callback l, thisArg l, i)) (zip ?inv [?c..<?c + length ?inv])"
      unfolding a0 by (simp add: deliveries_listener_calls)
    have a2: "length (store ?st') = ?c + length ?inv" by (simp add: eq)
    have a3: "\<forall>i < ?c + length ?inv. store ?st' ! i = (if i < ?c then store st ! i else ?ev)"
      by (auto simp: eq nth_append)
    have a4: "\<forall>e. ?r = Some e \<longrightarrow>
        ?inv \<noteq> [] \<and>
        snd (beh (last ?inv) (?c + (length ?inv - 1))
               (before_call a ?inv (length ?inv - 1) st)) = Some e"
      unfolding 2 using thrown_Some [OF ib _ al, of ?L] by blast
    have a5: "\<forall>i < length ?inv - 1.
        snd (beh (?inv ! i) (?c + i) (before_call a ?inv i st)) = None"
      using invoked_quiet [OF ib _ al, of _ ?L] by blast
    show "new_effects st ?st' = listener_calls ?c ?inv \<and>
      deliveries (new_effects st ?st') =
        map (\<lambda>(l, i). (callback l, thisArg l, i)) (zip ?inv [?c..<?c + length ?inv]) \<and>
      length (store ?st') = ?c + length ?inv \<and>
      (\<forall>i < ?c + length ?inv. store ?st' ! i = (if i < ?c then store st ! i else ?ev)) \<and>
      (\<forall>e. ?r = Some e \<longrightarrow>
         ?inv \<noteq> [] \<and>
         snd (beh (last ?inv) (?c + (length ?inv - 1))
                (before_call a ?inv (length ?inv - 1) st)) = Some e) \<and>
      (\<forall>i < length ?inv - 1. snd (beh (?inv ! i) (?c + i) (before_call a ?inv i st)) = None)"
      using a0 a1 a2 a3 a4 a5 by blast
  qed
  show ?thesis unfolding Let_def using 1 2 3 4 5 by blast
qed

text \<open>In the example the listener with callback 3 throws.\<close>

theorem listeners_until_throw_witness:
  "(\<forall>l c s. prefix (eventListeners s) (eventListeners (fst (throwing3 l c s)))) \<and>
   inert throwing3 \<and> 0 < length (store st_event) \<and>
   snd (callEventListeners throwing3 0 st_event) = Some (Error ''boom'') \<and>
   (let L = eventListeners st_event;
        st' = fst (callEventListeners throwing3 0 st_event);
        r = snd (callEventListeners throwing3 0 st_event);
        c = length (store st_event);
        inv = invoked throwing3 0 L st_event
    in callEventListeners throwing3 0 st_event = callEach throwing3 0 L st_event \<and>
       r = thrown throwing3 0 L st_event \<and>
       prefix inv L \<and>
       new_effects st_event st' = listener_calls c inv \<and>
       deliveries (new_effects st_event st') =
         map (\<lambda>(l, i). (callback l, thisArg l, i)) (zip inv [c..<c + length inv]) \<and>
       length (store st') = c + length inv \<and>
       (\<forall>i < c + length inv.
          store st' ! i = (if i < c then store st_event ! i else store st_event ! 0)) \<and>
       inv \<noteq> [] \<and>
       snd (throwing3 (last inv) (c + (length inv - 1))
              (before_call 0 inv (length inv - 1) st_event)) = Some (Error ''boom'') \<and>
       (\<forall>i < length inv - 1.
          snd (throwing3 (inv ! i) (c + i) (before_call 0 inv i st_event)) = None))"
proof -
  have h1: "\<forall>l c s. prefix (eventListeners s) (eventListeners (fst (throwing3 l c s)))"
    by (simp add: throwing3_def)
  have h2: "inert throwing3" by (simp add: inert_def throwing3_def)
  have h3: "0 < length (store st_event)" by (simp add: st_event_eq)
  have r: "snd (callEventListeners throwing3 0 st_event) = Some (Error ''boom'')"
    by (simp add: st_event_eq st_example_eq callEventListeners_def throwing3_def Let_def)
  show ?thesis
    using h1 h2 h3 r listeners_until_throw [OF h1, of st_event 0] unfolding Let_def by blast
qed

subsection \<open>Joining an expectation\<close>

text \<open>
  With params given, \<^verbatim>\<open>waitExpectedEvent\<close> does not throw: it returns a rejected promise and
  leaves the state as it is when no entry matches, and otherwise pushes the handler of a new
  promise to the first matching entry.
\<close>

lemma waitExpectedEvent_none:
  assumes "\<forall>(k, e) \<in> set (expectedEventSpecs st). \<not> matches ty p e"
  shows "waitExpectedEvent ty (Some p) st = Inr (Rejected (Error ''No such expected event''), st)"
  using lookup_none [OF assms] by (simp add: waitExpectedEvent_def)

lemma waitExpectedEvent_first:
  assumes "expectedEventSpecs st = pre @ (h, v) # post"
    and "sorted_wrt (<) (map fst (expectedEventSpecs st))"
    and "\<forall>(k, e) \<in> set pre. \<not> matches ty p e" and "matches ty p v"
  shows "waitExpectedEvent ty (Some p) st =
     Inr (Pending (promises st),
          st\<lparr>promises := promises st + 1,
             expectedEventSpecs := pre @ (h, v\<lparr>handlers := handlers v @ [promises st]\<rparr>) # post\<rparr>)"
proof -
  have d: "distinct (map fst (expectedEventSpecs st))"
    using assms(2) by (rule sorted_keys_distinct)
  have m: "map_of (expectedEventSpecs st) h = Some v"
    using assms(1) d by (simp add: map_of_middle del: map_of_append)
  have o: "obj_set (expectedEventSpecs st) h (v\<lparr>handlers := handlers v @ [promises st]\<rparr>) =
             pre @ (h, v\<lparr>handlers := handlers v @ [promises st]\<rparr>) # post"
    using assms(1,2) by (simp add: obj_set_middle)
  show ?thesis
    using lookup_first [OF assms(1,3,4)] m o by (simp add: waitExpectedEvent_def)
qed

text \<open>
  Claim C7 holds that \<^verbatim>\<open>waitExpectedEvent\<close> never throws, also when params are omitted.
  With one registered expectation of \<^verbatim>\<open>x\<close> events with \<^verbatim>\<open>{a: 1}\<close>, the call
  \<^verbatim>\<open>waitExpectedEvent("x")\<close> throws a TypeError: the lookup reads \<^verbatim>\<open>params[key]\<close> on
  \<^verbatim>\<open>null\<close>.
\<close>

theorem wait_without_params_throws:
  "waitExpectedEvent ''x'' None st_one = Inl TypeError"
  by (simp add: st_one_def expectEvent_def initial_def waitExpectedEvent_def
      lookupExpectedEventHandle_def specMatches_def truthy_str_def Let_def)

subsection \<open>Order within a batch\<close>




end
